theory Spec2Isabelle
  imports Main "HOL-Library.AList" "HOL-Library.Sublist"
begin

section \<open>The document tree\<close>

text \<open>
  The editor works on a browser DOM. An element carries a tag name, its content attributes
  in source order, and the declarations of its inline style object (\<open>el.style\<close>, what the
  \<open>style\<close> attribute holds); a node is an element with its child nodes, or a text node.
  The inline style is kept apart from the other attributes, since the runtime writes it
  through \<open>el.style[k] = v\<close> and never through \<open>setAttribute\<close>.
\<close>

type_synonym attrs = "(string \<times> string) list"

record elem =
  tagName :: string
  attributes :: attrs
  style :: attrs

datatype node = Element elem "node list" | Text string

text \<open>
  \<open>String.prototype.toLowerCase\<close> on the ASCII letters, which is all a tag or attribute
  name of an HTML document needs.
\<close>

definition lowerChar :: "char \<Rightarrow> char" where
  "lowerChar c =
     (let n = (of_char c :: nat) in if 65 \<le> n \<and> n \<le> 90 then char_of (n + 32) else c)"

definition toLowerCase :: "string \<Rightarrow> string" where
  "toLowerCase s = map lowerChar s"

text \<open>
  The attribute methods of \<open>Element\<close>. On an HTML element of an HTML document each of
  them lower-cases the name it is given before it looks at the attribute list (so
  \<open>contentEditable\<close> is the attribute \<open>contenteditable\<close>); \<open>setAttribute\<close> replaces the
  value of an attribute in place and appends a new attribute at the end.
\<close>

definition getAttribute :: "string \<Rightarrow> elem \<Rightarrow> string option" where
  "getAttribute n e = map_of (attributes e) (toLowerCase n)"

definition hasAttribute :: "string \<Rightarrow> elem \<Rightarrow> bool" where
  "hasAttribute n e = (getAttribute n e \<noteq> None)"

definition setAttribute :: "string \<Rightarrow> string \<Rightarrow> elem \<Rightarrow> elem" where
  "setAttribute n v e = e\<lparr>attributes := AList.update (toLowerCase n) v (attributes e)\<rparr>"

definition removeAttribute :: "string \<Rightarrow> elem \<Rightarrow> elem" where
  "removeAttribute n e = e\<lparr>attributes := AList.delete (toLowerCase n) (attributes e)\<rparr>"

text \<open>
  What \<open>DOMParser.parseFromString(html, "text/html")\<close> returns: the HTML parser always
  builds an \<open>html\<close> element with exactly one \<open>head\<close> and one \<open>body\<close>, whatever the input.
\<close>

record document =
  html :: elem
  head :: elem
  headChildren :: "node list"
  body :: elem
  bodyChildren :: "node list"

definition documentElement :: "document \<Rightarrow> node" where
  "documentElement d =
     Element (html d) [Element (head d) (headChildren d), Element (body d) (bodyChildren d)]"

text \<open>The elements of a subtree in document order (the root first).\<close>

fun elements :: "node \<Rightarrow> elem list"
  and elementsOf :: "node list \<Rightarrow> elem list" where
  "elements (Text s) = []"
| "elements (Element e cs) = e # elementsOf cs"
| "elementsOf [] = []"
| "elementsOf (n # ns) = elements n @ elementsOf ns"

section \<open>Document Tagger: \<open>attachEditorIds\<close>\<close>

text \<open>
  The template literal \<open>`el-${counter++}`\<close> prints the counter in decimal. The counter is a
  JavaScript number; it counts elements of one document, far below \<open>2^53\<close>, so it is a
  natural number here.
\<close>

definition digitChar :: "nat \<Rightarrow> char" where
  "digitChar n = char_of (48 + n)"

fun decimal :: "nat \<Rightarrow> string" where
  "decimal n = (if n < 10 then [digitChar n] else decimal (n div 10) @ [digitChar (n mod 10)])"

declare decimal.simps [simp del]

definition editorId :: "nat \<Rightarrow> string" where
  "editorId counter = ''el-'' @ decimal counter"

text \<open>
  The body of the \<open>while (walker.nextNode())\<close> loop, on one element: the counter advances
  only when an identifier is written.
\<close>

definition attachId :: "elem \<Rightarrow> nat \<Rightarrow> elem \<times> nat" where
  "attachId el counter =
     (if \<not> hasAttribute ''data-editor-id'' el
      then (setAttribute ''data-editor-id'' (editorId counter) el, counter + 1)
      else (el, counter))"

text \<open>
  The tree walker is created on \<open>doc.body\<close> with \<open>NodeFilter.SHOW_ELEMENT\<close>; \<open>nextNode\<close>
  visits the elements below the root in document order and never the root itself. Writing
  an attribute does not change the tree, so the loop is a pre-order traversal that threads
  the counter.
\<close>

fun walkNode :: "node \<Rightarrow> nat \<Rightarrow> node \<times> nat"
  and walkNodes :: "node list \<Rightarrow> nat \<Rightarrow> node list \<times> nat" where
  "walkNode (Text s) counter = (Text s, counter)"
| "walkNode (Element el cs) counter =
     (case attachId el counter of (el', c1) \<Rightarrow>
        (case walkNodes cs c1 of (cs', c2) \<Rightarrow> (Element el' cs', c2)))"
| "walkNodes [] counter = ([], counter)"
| "walkNodes (n # ns) counter =
     (case walkNode n counter of (n', c1) \<Rightarrow>
        (case walkNodes ns c1 of (ns', c2) \<Rightarrow> (n' # ns', c2)))"

definition attachEditorIds :: "document \<Rightarrow> document" where
  "attachEditorIds doc = doc\<lparr>bodyChildren := fst (walkNodes (bodyChildren doc) 1)\<rparr>"

text \<open>The elements under the content root, in document order.\<close>

definition contentElements :: "document \<Rightarrow> elem list" where
  "contentElements doc = elementsOf (bodyChildren doc)"

text \<open>
  Quantities the statements about the Tagger speak of: the identifiers already present in a
  list of elements, the number of elements that lack one, and the loop body run over a
  list of elements in order.
\<close>

definition presentIds :: "elem list \<Rightarrow> string list" where
  "presentIds es = List.map_filter (getAttribute ''data-editor-id'') es"

definition untagged :: "elem list \<Rightarrow> nat" where
  "untagged es = length (filter (\<lambda>e. \<not> hasAttribute ''data-editor-id'' e) es)"

definition identifiers :: "document \<Rightarrow> string option list" where
  "identifiers doc = map (getAttribute ''data-editor-id'') (contentElements doc)"

fun attachAll :: "elem list \<Rightarrow> nat \<Rightarrow> elem list" where
  "attachAll [] counter = []"
| "attachAll (e # es) counter =
     fst (attachId e counter) # attachAll es (snd (attachId e counter))"

section \<open>Sandbox Bootstrapper: \<open>buildIframeContents\<close>\<close>

text \<open>
  Template literals keep their line breaks; the two texts that \<open>buildIframeContents\<close>
  injects are given line by line, \<open>styleLines\<close> for the style and \<open>scriptLines\<close> for the
  script.
\<close>

fun joinLines :: "string list \<Rightarrow> string" where
  "joinLines [] = []"
| "joinLines [l] = l"
| "joinLines (l # ls) = l @ CHR 0x0A # joinLines ls"

definition styleLines :: "string list" where
  \<open>styleLines =
    ['''',
     ''    [data-editor-id][data-selected="true"]{outline:3px solid #2563eb66; box-shadow:0 2px 8px rgba(37,99,235,0.12);} '',
     ''    [data-editor-id]{cursor: pointer;}'',
     ''  '']\<close>

definition helperStyles :: string where
  "helperStyles = joinLines styleLines"

definition scriptLines :: "string list" where
  \<open>scriptLines =
    ['''',
     ''    (function(){'',
     ''      function post(msg){ parent.postMessage(msg, '*'); }'',
     ''      // make elements selectable and optionally editable'',
     ''      function makeInteractive(){'',
     ''        const walker = document.createTreeWalker(document.body, NodeFilter.SHOW_ELEMENT, null, false);'',
     ''        while(walker.nextNode()){'',
     ''          const el = walker.currentNode;'',
     ''          if(!el.hasAttribute('data-editor-id')){'',
     ''            el.setAttribute('data-editor-id', 'el-'+Math.random().toString(36).slice(2,9));'',
     ''          }'',
     ''          // avoid adding handlers to the html/body root repeatedly'',
     ''          el.addEventListener('click', function(ev){'',
     ''            ev.stopPropagation();'',
     ''            // set selected attribute'',
     ''            Array.from(document.querySelectorAll('[data-editor-id]')).forEach(e=>e.removeAttribute('data-selected'));'',
     ''            this.setAttribute('data-selected','true');'',
     ''            // focus contentEditable for text-like elements'',
     ''            const isImg = this.tagName.toLowerCase()==='img';'',
     ''            if(!isImg){'',
     ''              this.setAttribute('contentEditable','true');'',
     ''              // ensure caret placement'',
     ''              const sel = window.getSelection();'',
     ''              sel.removeAllRanges();'',
     ''              const range = document.createRange();'',
     ''              range.selectNodeContents(this);'',
     ''              sel.addRange(range);'',
     ''            }'',
     ''            post({type:'selection', id:this.getAttribute('data-editor-id'), tag:this.tagName.toLowerCase(), outerHTML:this.outerHTML});'',
     ''          }, false);'',
     '''',
     ''          // make images non-contentEditable but clickable'',
     ''          if(el.tagName.toLowerCase()==='img'){'',
     ''            el.setAttribute('draggable','false');'',
     ''          }'',
     ''        }'',
     ''      }'',
     '''',
     ''      // when content changes, notify parent'',
     ''      document.addEventListener('input', function(ev){'',
     ''        const target = ev.target;'',
     ''        if(target && target.getAttribute && target.getAttribute('data-editor-id')){'',
     ''          post({type:'content-changed', id: target.getAttribute('data-editor-id'), outerHTML: target.outerHTML});'',
     ''        }'',
     ''      }, true);'',
     '''',
     ''      // listen to messages from parent'',
     ''      window.addEventListener('message', function(e){'',
     ''        const msg = e.data || {};'',
     ''        try{'',
     ''          if(msg.type === 'apply-props'){'',
     ''            const el = document.querySelector('[data-editor-id="'+msg.id+'"]');'',
     ''            if(!el) return;'',
     ''            if(msg.props){'',
     ''              Object.entries(msg.props).forEach(([k,v])=>{'',
     ''                if(k === 'innerHTML') el.innerHTML = v;'',
     ''                else if(k === 'src' && el.tagName.toLowerCase()==='img') el.src = v;'',
     ''                else el.style[k] = v;'',
     ''              });'',
     ''            }'',
     ''          } else if(msg.type === 'clear-selection'){'',
     ''            Array.from(document.querySelectorAll('[data-selected]')).forEach(e=>e.removeAttribute('data-selected'));'',
     ''          }'',
     ''        }catch(err){/* ignore */}'',
     ''      });'',
     '''',
     ''      // initial setup'',
     ''      makeInteractive();'',
     ''      // observe DOM additions to make them interactive too'',
     ''      const obs = new MutationObserver(()=>{ makeInteractive(); });'',
     ''      obs.observe(document.body, {childList:true, subtree:true});'',
     '''',
     ''      // inform parent that iframe is ready and send full HTML'',
     ''      post({type:'iframe-ready', html: document.documentElement.outerHTML});'',
     ''    })();'',
     ''  '']\<close>

definition injectedScript :: string where
  "injectedScript = joinLines scriptLines"

text \<open>
  \<open>doc.createElement("style")\<close> with its \<open>innerHTML\<close> set, and the script element with
  its \<open>type\<close> and \<open>innerHTML\<close> set: the content of a \<open>style\<close> or \<open>script\<close> element is
  raw text, one text node.
\<close>

definition styleElement :: node where
  "styleElement = Element \<lparr>tagName = ''STYLE'', attributes = [], style = []\<rparr> [Text helperStyles]"

definition scriptElement :: node where
  "scriptElement =
     Element \<lparr>tagName = ''SCRIPT'', attributes = [(''type'', ''text/javascript'')], style = []\<rparr>
       [Text injectedScript]"

text \<open>
  The HTML parser and the serializer (\<open>outerHTML\<close>) belong to the browser; they are
  parameters. \<open>DOMParser.parseFromString\<close> with \<open>"text/html"\<close> returns a document for every
  input text and never throws.
\<close>

definition buildIframeContents ::
    "(string \<Rightarrow> document) \<Rightarrow> (node \<Rightarrow> string) \<Rightarrow> string \<Rightarrow> string" where
  "buildIframeContents parseFromString outerHTML h =
     (let doc = attachEditorIds (parseFromString h);
          doc1 = doc\<lparr>headChildren := headChildren doc @ [styleElement]\<rparr>;
          doc2 = doc1\<lparr>bodyChildren := bodyChildren doc1 @ [scriptElement]\<rparr>
      in ''<!doctype html>'' @ [CHR 0x0A] @ outerHTML (documentElement doc2))"

text \<open>
  The document that \<open>buildIframeContents\<close> serializes, given the parsed document: tagged,
  then the style element appended to the \<open>head\<close>, then the script element to the \<open>body\<close>.
\<close>

definition servedDocument :: "document \<Rightarrow> document" where
  "servedDocument parsed =
     (let doc = attachEditorIds parsed;
          doc1 = doc\<lparr>headChildren := headChildren doc @ [styleElement]\<rparr>
      in doc1\<lparr>bodyChildren := bodyChildren doc1 @ [scriptElement]\<rparr>)"

section \<open>Sandbox Runtime: the injected script\<close>

text \<open>
  Inside the frame the script works on the whole document, so the state holds the tree of
  the \<open>html\<close> element. An element is addressed by its path from the root, the list of
  child indices; attribute and style updates keep the shape of the tree, so a path names
  the same element before and after them. Only an assignment to \<open>innerHTML\<close> changes the
  shape, and only below the element it is made on.
\<close>

type_synonym path = "nat list"

fun nodeAt :: "path \<Rightarrow> node \<Rightarrow> node option" where
  "nodeAt [] n = Some n"
| "nodeAt (i # p) (Text s) = None"
| "nodeAt (i # p) (Element e cs) = (if i < length cs then nodeAt p (cs ! i) else None)"

definition elemAt :: "path \<Rightarrow> node \<Rightarrow> elem option" where
  "elemAt p n = (case nodeAt p n of Some (Element e cs) \<Rightarrow> Some e | _ \<Rightarrow> None)"

fun updateAt :: "(node \<Rightarrow> node) \<Rightarrow> path \<Rightarrow> node \<Rightarrow> node" where
  "updateAt f [] n = f n"
| "updateAt f (i # p) (Text s) = Text s"
| "updateAt f (i # p) (Element e cs) =
     (if i < length cs then Element e (cs[i := updateAt f p (cs ! i)]) else Element e cs)"

definition onElement :: "(elem \<Rightarrow> elem) \<Rightarrow> node \<Rightarrow> node" where
  "onElement f n = (case n of Element e cs \<Rightarrow> Element (f e) cs | Text s \<Rightarrow> Text s)"

text \<open>The paths of the elements of a tree in document order, as a selector query walks it.\<close>

fun elementPaths :: "node \<Rightarrow> path list"
  and childPaths :: "nat \<Rightarrow> node list \<Rightarrow> path list" where
  "elementPaths (Text s) = []"
| "elementPaths (Element e cs) = [] # childPaths 0 cs"
| "childPaths i [] = []"
| "childPaths i (c # cs) = map ((#) i) (elementPaths c) @ childPaths (Suc i) cs"

text \<open>
  \<open>document.querySelectorAll\<close> and \<open>document.querySelector\<close> for a selector that is given
  as a predicate on elements: \<open>[data-editor-id]\<close> is \<open>hasAttribute ''data-editor-id''\<close>,
  \<open>[data-selected]\<close> is \<open>hasAttribute ''data-selected''\<close>, and the attribute selector with
  the value \<open>v\<close> is \<open>idIs v\<close>.
\<close>

definition querySelectorAll :: "(elem \<Rightarrow> bool) \<Rightarrow> node \<Rightarrow> path list" where
  "querySelectorAll sel root =
     filter (\<lambda>p. case elemAt p root of Some e \<Rightarrow> sel e | None \<Rightarrow> False) (elementPaths root)"

definition querySelector :: "(elem \<Rightarrow> bool) \<Rightarrow> node \<Rightarrow> path option" where
  "querySelector sel root = (case querySelectorAll sel root of [] \<Rightarrow> None | p # ps \<Rightarrow> Some p)"

definition idIs :: "string \<Rightarrow> elem \<Rightarrow> bool" where
  "idIs v e = (getAttribute ''data-editor-id'' e = Some v)"

text \<open>
  The \<open>apply-props\<close> branch builds its selector as text, the identifier of the message
  between two quotation marks, and hands it to \<open>document.querySelector\<close>. What that text
  means depends on the identifier. Without a quotation mark, a backslash, a NUL and a line
  break in it the text is the attribute selector with that value. With a line break (and
  none of the first three) the string token is broken, the selector is invalid and
  \<open>querySelector\<close> throws. With a quotation mark, a backslash or a NUL the text can be
  invalid or a different selector; there the result is left to the selector engine of the
  browser, a parameter that returns \<open>None\<close> when it throws. \<open>locate\<close> is the lookup of
  the code: \<open>None\<close> when it throws, \<open>Some None\<close> when it finds no element.
\<close>

definition breaksOut :: "char \<Rightarrow> bool" where
  "breaksOut c = (c = CHR 0x22 \<or> c = CHR 0x5C \<or> c = CHR 0x00)"

definition lineBreak :: "char \<Rightarrow> bool" where
  "lineBreak c = (c = CHR 0x0A \<or> c = CHR 0x0D \<or> c = CHR 0x0C)"

definition plainId :: "string \<Rightarrow> bool" where
  "plainId i = (\<not> list_ex breaksOut i \<and> \<not> list_ex lineBreak i)"

definition selectorText :: "string \<Rightarrow> string" where
  "selectorText i = ''[data-editor-id='' @ [CHR 0x22] @ i @ [CHR 0x22] @ '']''"

definition locate ::
    "(string \<Rightarrow> node \<Rightarrow> path option option) \<Rightarrow> string \<Rightarrow> node \<Rightarrow> path option option" where
  "locate engine i root =
     (if list_ex breaksOut i then engine (selectorText i) root
      else if list_ex lineBreak i then None
      else Some (querySelector (idIs i) root))"

text \<open>\<open>Array.from(...).forEach(e => ...)\<close> with a callback that rewrites the element itself.\<close>

definition forEachElement :: "(elem \<Rightarrow> elem) \<Rightarrow> path list \<Rightarrow> node \<Rightarrow> node" where
  "forEachElement f ps root = fold (\<lambda>p. updateAt (onElement f) p) ps root"

text \<open>The messages of the protocol between the frame and the host.\<close>

datatype notification =
    Selection "string option" string string
  | ContentChanged string string
  | IframeReady string

datatype command =
    ApplyProps string "(string \<times> string) list option"
  | ClearSelection
  | OtherMessage

text \<open>
  What the script takes from the browser: the serializer behind \<open>outerHTML\<close>, the
  fragment parser behind an assignment to \<open>innerHTML\<close> (given the element and the markup),
  the selector engine for the selector texts that \<open>locate\<close> leaves to it, the setter of the
  style object (\<open>el.style[k] = v\<close>: given the key, the value and the declarations, it
  returns the declarations; the browser decides whether and how a declaration changes),
  and the text that the \<open>n\<close>-th evaluation of \<open>Math.random().toString(36).slice(2,9)\<close>
  yields.
\<close>

record browser =
  serializer :: "node \<Rightarrow> string"
  fragmentParser :: "elem \<Rightarrow> string \<Rightarrow> node list"
  selectorEngine :: "string \<Rightarrow> node \<Rightarrow> path option option"
  styleSetter :: "string \<Rightarrow> string \<Rightarrow> attrs \<Rightarrow> attrs"
  randomText :: "nat \<Rightarrow> string"

text \<open>
  A range of the text selection: the one that \<open>selectNodeContents\<close> makes spans the
  contents of an element; a range whose contents are removed collapses to the start of
  the element that lost them.
\<close>

datatype range = Contents path | Caret path

text \<open>
  The state of the frame: the document; the ranges of the window's text selection; the
  messages posted to the parent so far; the elements that have the click listener (an
  element is listed once for each time the listener was added to it); the \<open>body\<close> that
  the mutation observer observes, while it is in the document; whether a mutation record
  is waiting for the observer; and the number of random texts drawn.
\<close>

record runtime =
  dom :: node
  ranges :: "range list"
  posted :: "notification list"
  listeners :: "path list"
  observing :: "path option"
  queued :: bool
  draws :: nat

text \<open>
  The click listener that \<open>makeInteractive\<close> attaches, run with \<open>this\<close> being the element
  at \<open>target\<close>.
\<close>

definition clickHandler :: "browser \<Rightarrow> path \<Rightarrow> runtime \<Rightarrow> runtime" where
  "clickHandler B target s =
     (case elemAt target (dom s) of
        None \<Rightarrow> s
      | Some el \<Rightarrow>
          (let d1 = forEachElement (removeAttribute ''data-selected'')
                      (querySelectorAll (hasAttribute ''data-editor-id'') (dom s)) (dom s);
               d2 = updateAt (onElement (setAttribute ''data-selected'' ''true'')) target d1;
               isImg = (toLowerCase (tagName el) = ''img'');
               d3 = (if \<not> isImg
                     then updateAt (onElement (setAttribute ''contentEditable'' ''true'')) target d2
                     else d2);
               rs = (if \<not> isImg then [Contents target] else ranges s)
           in (case nodeAt target d3 of
                 Some (Element e cs) \<Rightarrow>
                   s\<lparr>dom := d3, ranges := rs,
                     posted := posted s @
                       [Selection (getAttribute ''data-editor-id'' e) (toLowerCase (tagName e))
                          (serializer B (Element e cs))]\<rparr>
               | _ \<Rightarrow> s)))"

text \<open>
  A click on the element at \<open>p\<close>. The event goes to \<open>p\<close> and bubbles up through its
  ancestors; the first of them that has the listener runs it, once for each time it was
  added, and \<open>stopPropagation\<close> ends the way up there. An element without the listener
  under no element with the listener (the \<open>body\<close>, the \<open>head\<close>, the \<open>html\<close> element, which
  the tree walker of \<open>makeInteractive\<close> never visits) takes the click and nothing runs.
\<close>

definition listenerTarget :: "path list \<Rightarrow> path \<Rightarrow> path option" where
  "listenerTarget ls p =
     (case filter (\<lambda>q. q \<in> set ls) (rev (prefixes p)) of [] \<Rightarrow> None | q # qs \<Rightarrow> Some q)"

definition click :: "browser \<Rightarrow> path \<Rightarrow> runtime \<Rightarrow> runtime" where
  "click B p s =
     (case elemAt p (dom s) of
        None \<Rightarrow> s
      | Some el \<Rightarrow>
          (case listenerTarget (listeners s) p of
             None \<Rightarrow> s
           | Some q \<Rightarrow> (clickHandler B q ^^ count_list (listeners s) q) s))"

text \<open>
  \<open>document.body\<close>: the first child of the \<open>html\<close> element that is a \<open>body\<close> or a
  \<open>frameset\<close> element.
\<close>

fun bodyIndexFrom :: "nat \<Rightarrow> node list \<Rightarrow> nat option" where
  "bodyIndexFrom i [] = None"
| "bodyIndexFrom i (Text t # ns) = bodyIndexFrom (Suc i) ns"
| "bodyIndexFrom i (Element e cs # ns) =
     (if toLowerCase (tagName e) = ''body'' \<or> toLowerCase (tagName e) = ''frameset''
      then Some i else bodyIndexFrom (Suc i) ns)"

definition documentBody :: "node \<Rightarrow> path option" where
  "documentBody root =
     (case root of
        Element e cs \<Rightarrow>
          (if toLowerCase (tagName e) = ''html''
           then map_option (\<lambda>i. [i]) (bodyIndexFrom 0 cs) else None)
      | Text t \<Rightarrow> None)"

text \<open>
  \<open>makeInteractive\<close>: the body of its loop on the element at \<open>p\<close>, and the loop over the
  elements below \<open>document.body\<close> in document order. The walk changes attributes only, so
  the paths are those of the tree it starts on. Without a \<open>body\<close> \<open>createTreeWalker\<close>
  throws and nothing is done.
\<close>

definition wire :: "browser \<Rightarrow> path \<Rightarrow> runtime \<Rightarrow> runtime" where
  "wire B p s =
     (case elemAt p (dom s) of
        None \<Rightarrow> s
      | Some el \<Rightarrow>
          (let s1 = (if \<not> hasAttribute ''data-editor-id'' el
                     then s\<lparr>dom := updateAt (onElement
                                 (setAttribute ''data-editor-id'' (''el-'' @ randomText B (draws s))))
                                 p (dom s),
                            draws := draws s + 1\<rparr>
                     else s);
               s2 = s1\<lparr>listeners := listeners s1 @ [p]\<rparr>
           in if toLowerCase (tagName el) = ''img''
              then s2\<lparr>dom := updateAt (onElement (setAttribute ''draggable'' ''false'')) p (dom s2)\<rparr>
              else s2))"

definition makeInteractive :: "browser \<Rightarrow> runtime \<Rightarrow> runtime" where
  "makeInteractive B s =
     (case documentBody (dom s) of
        None \<Rightarrow> s
      | Some b \<Rightarrow>
          (case nodeAt b (dom s) of
             Some (Element e cs) \<Rightarrow> fold (wire B) (map ((@) b) (childPaths 0 cs)) s
           | _ \<Rightarrow> s))"

text \<open>
  The script at load time, on the document that the frame has parsed: it registers the
  \<open>input\<close> and \<open>message\<close> listeners, runs \<open>makeInteractive\<close>, starts observing
  \<open>document.body\<close> and posts \<open>iframe-ready\<close>. Without a \<open>body\<close> the script stops at the
  exception of \<open>makeInteractive\<close>, before the observer and the message.
\<close>

definition startup :: "browser \<Rightarrow> node \<Rightarrow> runtime" where
  "startup B root =
     (let s0 = \<lparr>dom = root, ranges = [], posted = [], listeners = [], observing = None,
                queued = False, draws = 0\<rparr>
      in case documentBody root of
           None \<Rightarrow> s0
         | Some b \<Rightarrow>
             (let s1 = makeInteractive B s0
              in s1\<lparr>observing := Some b, posted := [IframeReady (serializer B (dom s1))]\<rparr>))"

text \<open>
  An assignment to \<open>innerHTML\<close> of the element at \<open>p\<close> replaces its children by what the
  fragment parser makes of the markup. With the old children go their click listeners;
  a range at or below \<open>p\<close> collapses to the start of \<open>p\<close>; when \<open>p\<close> is the \<open>html\<close>
  element the observed \<open>body\<close> leaves the document; and when \<open>p\<close> is the observed
  \<open>body\<close> or below it and a child is removed or added, a record is queued for the
  observer.
\<close>

definition collapseInto :: "path \<Rightarrow> range \<Rightarrow> range" where
  "collapseInto p r =
     (case r of
        Contents q \<Rightarrow> if prefix p q then Caret p else r
      | Caret q \<Rightarrow> if strict_prefix p q then Caret p else r)"

definition setInnerHTML :: "browser \<Rightarrow> path \<Rightarrow> string \<Rightarrow> runtime \<Rightarrow> runtime" where
  "setInnerHTML B p v s =
     (case nodeAt p (dom s) of
        Some (Element el cs) \<Rightarrow>
          (let cs' = fragmentParser B el v
           in s\<lparr>dom := updateAt (\<lambda>n. Element el cs') p (dom s),
                ranges := map (collapseInto p) (ranges s),
                listeners := filter (\<lambda>q. \<not> strict_prefix p q) (listeners s),
                observing := (case observing s of
                                Some ob \<Rightarrow> if strict_prefix p ob then None else Some ob
                              | None \<Rightarrow> None),
                queued := (queued s \<or>
                           (case observing s of
                              Some ob \<Rightarrow> prefix ob p \<and> (cs \<noteq> [] \<or> cs' \<noteq> [])
                            | None \<Rightarrow> False))\<rparr>)
      | _ \<Rightarrow> s)"

text \<open>
  One entry of \<open>Object.entries(msg.props)\<close> applied to the located element \<open>el\<close>, which is
  at \<open>p\<close>: \<open>el.innerHTML = v\<close>, or \<open>el.src = v\<close> on an image, which writes the \<open>src\<close>
  attribute, or \<open>el.style[k] = v\<close>, which hands key and value to the style object as they
  are.
\<close>

definition applyEntry :: "browser \<Rightarrow> path \<Rightarrow> string \<times> string \<Rightarrow> runtime \<Rightarrow> runtime" where
  "applyEntry B p kv s =
     (case kv of (k, v) \<Rightarrow>
        if k = ''innerHTML'' then setInnerHTML B p v s
        else (case elemAt p (dom s) of
                None \<Rightarrow> s
              | Some el \<Rightarrow>
                  if k = ''src'' \<and> toLowerCase (tagName el) = ''img''
                  then s\<lparr>dom := updateAt (onElement (setAttribute ''src'' v)) p (dom s)\<rparr>
                  else s\<lparr>dom := updateAt
                                  (onElement (\<lambda>e. e\<lparr>style := styleSetter B k v (style e)\<rparr>))
                                  p (dom s)\<rparr>))"

text \<open>
  The \<open>message\<close> listener. \<open>props\<close> is \<open>None\<close> when \<open>msg.props\<close> is missing, and else the
  entries of the object in the order of \<open>Object.entries\<close>. The listener runs in a
  \<open>try\<close> whose \<open>catch\<close> ignores the exception: when the lookup throws, nothing has been
  changed and nothing is.
\<close>

definition messageListener :: "browser \<Rightarrow> command \<Rightarrow> runtime \<Rightarrow> runtime" where
  "messageListener B msg s =
     (case msg of
        ApplyProps i props \<Rightarrow>
          (case locate (selectorEngine B) i (dom s) of
             None \<Rightarrow> s
           | Some None \<Rightarrow> s
           | Some (Some p) \<Rightarrow>
               (case props of
                  None \<Rightarrow> s
                | Some kvs \<Rightarrow> fold (applyEntry B p) kvs s))
      | ClearSelection \<Rightarrow>
          s\<lparr>dom := forEachElement (removeAttribute ''data-selected'')
                    (querySelectorAll (hasAttribute ''data-selected'') (dom s)) (dom s)\<rparr>
      | OtherMessage \<Rightarrow> s)"

text \<open>
  When the listener has returned the observer gets its records: with one queued its callback runs
  \<open>makeInteractive\<close>. The walk of \<open>makeInteractive\<close> changes attributes only, which the
  observer (\<open>childList\<close>, \<open>subtree\<close>) does not record.
\<close>

definition deliverMutations :: "browser \<Rightarrow> runtime \<Rightarrow> runtime" where
  "deliverMutations B s = (if queued s then makeInteractive B (s\<lparr>queued := False\<rparr>) else s)"

text \<open>
  What happens in the frame: a click on an element, or a command from the host followed
  by the delivery of the observer's records. The click listener changes no child list, so
  a click leaves the observer nothing to deliver.
\<close>

datatype event = Click path | Message command

definition step :: "browser \<Rightarrow> event \<Rightarrow> runtime \<Rightarrow> runtime" where
  "step B ev s =
     (case ev of
        Click p \<Rightarrow> click B p s
      | Message m \<Rightarrow> deliverMutations B (messageListener B m s))"

definition run :: "browser \<Rightarrow> event list \<Rightarrow> runtime \<Rightarrow> runtime" where
  "run B evs s = fold (step B) evs s"

text \<open>
  Notions the statements about the runtime use. \<open>afterClick hit img e\<close> is what one run of
  the click listener makes of an element \<open>e\<close> of the document: \<open>hit\<close> says that \<open>e\<close> is
  the element the listener runs on, \<open>img\<close> that this element is an image.
  \<open>identifiableAt\<close> says that a path leads to an element with an identifier,
  \<open>editableAt\<close> that it leads to an element whose \<open>contentEditable\<close> attribute is
  \<open>true\<close>. \<open>strayMarker\<close> is the selector \<open>[data-selected]:not([data-editor-id])\<close>, and
  \<open>identifiedMarker\<close> the selector \<open>[data-editor-id][data-selected]\<close>, which the highlight
  rule of the injected style narrows to the value \<open>true\<close>.
\<close>

definition afterClick :: "bool \<Rightarrow> bool \<Rightarrow> elem \<Rightarrow> elem" where
  "afterClick hit img e =
     (let e1 = (if hasAttribute ''data-editor-id'' e then removeAttribute ''data-selected'' e else e)
      in if hit
         then (let e2 = setAttribute ''data-selected'' ''true'' e1
               in if img then e2 else setAttribute ''contentEditable'' ''true'' e2)
         else e1)"

definition identifiableAt :: "node \<Rightarrow> path \<Rightarrow> bool" where
  "identifiableAt root p =
     (case elemAt p root of Some e \<Rightarrow> hasAttribute ''data-editor-id'' e | None \<Rightarrow> False)"

definition editableAt :: "node \<Rightarrow> path \<Rightarrow> bool" where
  "editableAt root p =
     (case elemAt p root of
        Some e \<Rightarrow> getAttribute ''contentEditable'' e = Some ''true''
      | None \<Rightarrow> False)"

definition strayMarker :: "elem \<Rightarrow> bool" where
  "strayMarker e = (hasAttribute ''data-selected'' e \<and> \<not> hasAttribute ''data-editor-id'' e)"

definition identifiedMarker :: "elem \<Rightarrow> bool" where
  "identifiedMarker e = (hasAttribute ''data-editor-id'' e \<and> hasAttribute ''data-selected'' e)"

text \<open>
  \<open>settled e\<close> says that the loop of \<open>makeInteractive\<close> finds nothing to write on the
  element \<open>e\<close>: it has an identifier, and when it is an image its \<open>draggable\<close> attribute
  is \<open>false\<close> already.
\<close>

definition settled :: "elem \<Rightarrow> bool" where
  "settled e =
     (hasAttribute ''data-editor-id'' e
      \<and> (toLowerCase (tagName e) = ''img'' \<longrightarrow> getAttribute ''draggable'' e = Some ''false''))"

text \<open>
  \<open>listenerRuns ls ps\<close> lists the runs of the click listener that clicks on the elements
  \<open>ps\<close> cause when each of them has the listener as often as \<open>ls\<close> lists it.
\<close>

definition listenerRuns :: "path list \<Rightarrow> path list \<Rightarrow> path list" where
  "listenerRuns ls ps = concat (map (\<lambda>p. replicate (count_list ls p) p) ps)"

text \<open>
  \<open>replacesContent props\<close> says that a patch has an \<open>innerHTML\<close> entry. An element leaves
  the document when such a patch is applied to one of its proper ancestors:
  \<open>removes B ev s p\<close> says that the event \<open>ev\<close>, met in the state \<open>s\<close>, is an
  \<open>apply-props\<close> command with an \<open>innerHTML\<close> entry that locates a proper ancestor of
  \<open>p\<close>; \<open>remains B p evs s\<close> says that no event of \<open>evs\<close>, run from \<open>s\<close>, does so.
\<close>

definition replacesContent :: "(string \<times> string) list option \<Rightarrow> bool" where
  "replacesContent props =
     (case props of Some kvs \<Rightarrow> list_ex (\<lambda>kv. fst kv = ''innerHTML'') kvs | None \<Rightarrow> False)"



section \<open>Host Controller: \<open>VisualHtmlEditor\<close>\<close>

record selection_info =
  infoId :: "string option"
  infoTag :: string
  infoOuterHTML :: string

text \<open>
  The state of the component: its three pieces of React state that matter here, whether
  \<open>iframeRef.current\<close> holds the frame element, the commands posted to the frame, and the
  number of read-back timers started.
\<close>

record host =
  htmlSource :: string
  selectedId :: "string option"
  selectionInfo :: "selection_info option"
  iframeMounted :: bool
  sent :: "command list"
  readBacks :: nat

text \<open>
  The \<open>message\<close> handler of the host. \<open>rendered\<close> is what reading
  \<open>iframe.contentDocument.documentElement.outerHTML\<close> gives, \<open>None\<close> when the read throws.
\<close>

definition handler :: "string option \<Rightarrow> notification \<Rightarrow> host \<Rightarrow> host" where
  "handler rendered msg h =
     (case msg of
        Selection i t oh \<Rightarrow>
          h\<lparr>selectedId := i,
            selectionInfo := Some \<lparr>infoId = i, infoTag = t, infoOuterHTML = oh\<rparr>\<rparr>
      | ContentChanged i oh \<Rightarrow>
          (if \<not> iframeMounted h then h
           else (case rendered of Some cur \<Rightarrow> h\<lparr>htmlSource := cur\<rparr> | None \<Rightarrow> h))
      | IframeReady m \<Rightarrow> h\<lparr>htmlSource := m\<rparr>)"


definition clearSelection :: "host \<Rightarrow> host" where
  "clearSelection h =
     (if \<not> iframeMounted h then h
      else h\<lparr>sent := sent h @ [ClearSelection], selectedId := None, selectionInfo := None\<rparr>)"

section \<open>Sample documents\<close>

text \<open>
  Small documents on which the theorems below are run. \<open>sampleDocument\<close> follows the
  built-in template of the host (a card, then a row holding an image and a second card),
  with an identifier already present on the row.
\<close>

definition mk :: "string \<Rightarrow> attrs \<Rightarrow> node list \<Rightarrow> node" where
  "mk t as cs = Element \<lparr>tagName = t, attributes = as, style = []\<rparr> cs"

definition emptyPage :: "node list \<Rightarrow> document" where
  "emptyPage cs =
     \<lparr>html = \<lparr>tagName = ''HTML'', attributes = [], style = []\<rparr>,
      head = \<lparr>tagName = ''HEAD'', attributes = [], style = []\<rparr>,
      headChildren = [],
      body = \<lparr>tagName = ''BODY'', attributes = [], style = []\<rparr>,
      bodyChildren = cs\<rparr>"

definition sampleDocument :: document where
  "sampleDocument = emptyPage
     [mk ''DIV'' [(''class'', ''card'')] [Text ''Hello''],
      mk ''DIV'' [(''data-editor-id'', ''el-7'')]
        [mk ''IMG'' [(''src'', ''demo.png'')] [],
         mk ''DIV'' [(''class'', ''card'')] [Text ''A second editable block'']]]"

text \<open>
  Two paragraphs that came with the same identifier, as after a copy in the raw text; and
  a paragraph without identifier put in front of one tagged \<open>el-1\<close> by an earlier run.
\<close>

definition copiedDocument :: document where
  "copiedDocument = emptyPage
     [mk ''P'' [(''data-editor-id'', ''a'')] [Text ''one''],
      mk ''P'' [(''data-editor-id'', ''a'')] [Text ''two'']]"

definition insertedDocument :: document where
  "insertedDocument = emptyPage
     [mk ''P'' [] [Text ''new''],
      mk ''P'' [(''data-editor-id'', ''el-1'')] [Text ''old'']]"

text \<open>
  A sample browser: its serializer prints the tag name only, its fragment parser makes one
  text node of the markup, its selector engine rejects every selector text that is left
  to it, its style setter stores the value under the key, and its \<open>n\<close>-th random text is
  \<open>r\<close> followed by \<open>n\<close>. The sample parser returns \<open>sampleDocument\<close> for every text.
\<close>

definition sampleBrowser :: browser where
  "sampleBrowser =
     \<lparr>serializer = (\<lambda>n. case n of Element e cs \<Rightarrow> tagName e | Text t \<Rightarrow> t),
      fragmentParser = (\<lambda>e v. [Text v]),
      selectorEngine = (\<lambda>sel root. None),
      styleSetter = (\<lambda>k v ds. AList.update k v ds),
      randomText = (\<lambda>n. ''r'' @ decimal n)\<rparr>"

text \<open>
  \<open>loaded doc\<close> is the frame that shows what \<open>buildIframeContents\<close> makes of the parsed
  document \<open>doc\<close>, after the script has started. In \<open>sampleRuntime\<close> the injected style is
  at path \<open>[0, 0]\<close>, the card at \<open>[1, 0]\<close>, the row at \<open>[1, 1]\<close>, the image at
  \<open>[1, 1, 0]\<close>, the second card at \<open>[1, 1, 1]\<close> and the injected script at \<open>[1, 2]\<close>.
\<close>

definition loaded :: "document \<Rightarrow> runtime" where
  "loaded doc = startup sampleBrowser (documentElement (servedDocument doc))"

definition sampleRuntime :: runtime where
  "sampleRuntime = loaded sampleDocument"

definition sampleParser :: "string \<Rightarrow> document" where
  "sampleParser h = sampleDocument"

definition sampleHost :: host where
  "sampleHost =
     \<lparr>htmlSource = [], selectedId = None, selectionInfo = None, iframeMounted = True,
      sent = [], readBacks = 0\<rparr>"

text \<open>
  A page \<open><body data-selected="true"><div>one</div><div>two</div></body>\<close>, whose \<open>body\<close>
  arrives with the marker already on it, a page \<open><body data-editor-id="b"><div>one</div></body>\<close>,
  whose \<open>body\<close> arrives with an identifier (the Tagger and \<open>makeInteractive\<close> never visit
  the \<open>body\<close> itself), and the frames showing them and \<open>copiedDocument\<close>.
\<close>

definition markedBodyDocument :: document where
  "markedBodyDocument =
     (emptyPage [mk ''DIV'' [] [Text ''one''], mk ''DIV'' [] [Text ''two'']])
       \<lparr>body := \<lparr>tagName = ''BODY'', attributes = [(''data-selected'', ''true'')], style = []\<rparr>\<rparr>"

definition markedBodyRuntime :: runtime where
  "markedBodyRuntime = loaded markedBodyDocument"

definition identifiedBodyDocument :: document where
  "identifiedBodyDocument =
     (emptyPage [mk ''DIV'' [] [Text ''one'']])
       \<lparr>body := \<lparr>tagName = ''BODY'', attributes = [(''data-editor-id'', ''b'')], style = []\<rparr>\<rparr>"

definition identifiedBodyRuntime :: runtime where
  "identifiedBodyRuntime = loaded identifiedBodyDocument"

definition copiedRuntime :: runtime where
  "copiedRuntime = loaded copiedDocument"

section \<open>Attributes\<close>

text \<open>\<open>lowerChar\<close> on the bits of a character: the upper-case letters are \<open>0x41\<close> to \<open>0x5A\<close>.\<close>

lemma lowerChar_code [code]:
  "lowerChar (Char b0 b1 b2 b3 b4 b5 b6 b7) =
     (if \<not> b7 \<and> b6 \<and> \<not> b5 \<and> (b0 \<or> b1 \<or> b2 \<or> b3 \<or> b4) \<and> \<not> (b4 \<and> b3 \<and> (b2 \<or> (b1 \<and> b0)))
      then Char b0 b1 b2 b3 b4 True b6 b7
      else Char b0 b1 b2 b3 b4 b5 b6 b7)"
  by (cases b0; cases b1; cases b2; cases b3; cases b4; cases b5; cases b6; cases b7)
     (simp_all add: lowerChar_def, code_simp+)

lemma lower_editor_id [simp]: "toLowerCase ''data-editor-id'' = ''data-editor-id''"
  by code_simp

lemma lower_selected [simp]: "toLowerCase ''data-selected'' = ''data-selected''"
  by code_simp

lemma lower_contentEditable [simp]: "toLowerCase ''contentEditable'' = ''contenteditable''"
  by code_simp

lemma lower_src [simp]: "toLowerCase ''src'' = ''src''"
  by code_simp

lemma lower_draggable [simp]: "toLowerCase ''draggable'' = ''draggable''"
  by code_simp

lemma getAttribute_setAttribute [simp]:
  "getAttribute n (setAttribute m v e) =
     (if toLowerCase n = toLowerCase m then Some v else getAttribute n e)"
  by (simp add: getAttribute_def setAttribute_def update_conv')

lemma hasAttribute_setAttribute [simp]:
  "hasAttribute n (setAttribute m v e) = (toLowerCase n = toLowerCase m \<or> hasAttribute n e)"
  by (simp add: hasAttribute_def)

lemma getAttribute_removeAttribute [simp]:
  "getAttribute n (removeAttribute m e) =
     (if toLowerCase n = toLowerCase m then None else getAttribute n e)"
  by (simp add: getAttribute_def removeAttribute_def delete_conv')

lemma hasAttribute_removeAttribute [simp]:
  "hasAttribute n (removeAttribute m e) = (toLowerCase n \<noteq> toLowerCase m \<and> hasAttribute n e)"
  by (simp add: hasAttribute_def)

lemma removeAttribute_idem [simp]:
  "removeAttribute n (removeAttribute n e) = removeAttribute n e"
  by (simp add: removeAttribute_def delete_idem)

section \<open>The Tagger: every element tagged, nothing overwritten\<close>

lemma attachId_tagged: "hasAttribute ''data-editor-id'' (fst (attachId e c))"
  by (simp add: attachId_def)

lemma attachId_fixed: "hasAttribute ''data-editor-id'' e \<Longrightarrow> attachId e c = (e, c)"
  by (simp add: attachId_def)

lemma walk_tagged:
  "list_all (hasAttribute ''data-editor-id'') (elements (fst (walkNode n c)))"
  "list_all (hasAttribute ''data-editor-id'') (elementsOf (fst (walkNodes ns c)))"
proof (induction n c and ns c rule: walkNode_walkNodes.induct)
  case (2 el cs counter)
  then show ?case
    using attachId_tagged [of el counter] by (auto split: prod.splits)
qed (auto split: prod.splits)

lemma walk_fixed:
  "list_all (hasAttribute ''data-editor-id'') (elements n) \<Longrightarrow> walkNode n c = (n, c)"
  "list_all (hasAttribute ''data-editor-id'') (elementsOf ns) \<Longrightarrow> walkNodes ns c = (ns, c)"
proof (induction n c and ns c rule: walkNode_walkNodes.induct)
  case (2 el cs counter)
  then show ?case by (simp add: attachId_fixed)
qed auto

lemma walk_keeps:
  "list_all2 (\<lambda>old new. hasAttribute ''data-editor-id'' old \<longrightarrow> new = old)
     (elements n) (elements (fst (walkNode n c)))"
  "list_all2 (\<lambda>old new. hasAttribute ''data-editor-id'' old \<longrightarrow> new = old)
     (elementsOf ns) (elementsOf (fst (walkNodes ns c)))"
proof (induction n c and ns c rule: walkNode_walkNodes.induct)
  case (2 el cs counter)
  then show ?case
    by (auto split: prod.splits if_splits simp: attachId_def)
next
  case (4 n ns counter)
  then show ?case
    by (auto split: prod.splits intro: list_all2_appendI)
qed auto

text \<open>
  C1. The Tagger is idempotent: a second run of \<open>attachEditorIds\<close> on the tagged document
  returns it unchanged, so every element keeps the identifier of the first run; and a run
  leaves every element that already carried an identifier exactly as it was (the elements
  are compared position by position in document order).
\<close>

theorem attachEditorIds_idempotent:
  "attachEditorIds (attachEditorIds doc) = attachEditorIds doc
   \<and> list_all2 (\<lambda>old new. hasAttribute ''data-editor-id'' old \<longrightarrow> new = old)
        (contentElements doc) (contentElements (attachEditorIds doc))"
  using walk_tagged(2) [of "bodyChildren doc" 1] walk_keeps(2) [of "bodyChildren doc" 1]
  by (simp add: attachEditorIds_def contentElements_def walk_fixed(2))

theorem attachEditorIds_idempotent_witness:
  "identifiers sampleDocument = [None, Some ''el-7'', None, None]
   \<and> identifiers (attachEditorIds sampleDocument)
       = [Some ''el-1'', Some ''el-7'', Some ''el-2'', Some ''el-3'']
   \<and> attachEditorIds (attachEditorIds sampleDocument) = attachEditorIds sampleDocument
   \<and> contentElements (attachEditorIds sampleDocument) ! 1 = contentElements sampleDocument ! 1"
  using attachEditorIds_idempotent [of sampleDocument]
  by code_simp

section \<open>The Tagger: when the identifiers are distinct\<close>

lemma decimal_nonempty: "decimal n \<noteq> []"
  by (subst decimal.simps) simp

lemma digitChar_inj: "m < 10 \<Longrightarrow> n < 10 \<Longrightarrow> digitChar m = digitChar n \<Longrightarrow> m = n"
proof -
  assume a: "m < 10" "n < 10" "digitChar m = digitChar n"
  then have "(of_char (char_of (48 + m) :: char) :: nat) = of_char (char_of (48 + n) :: char)"
    by (simp add: digitChar_def)
  with a show ?thesis by simp
qed

lemma decimal_inj: "decimal m = decimal n \<Longrightarrow> m = n"
proof (induction m arbitrary: n rule: decimal.induct)
  case (1 m)
  show ?case
  proof (cases "m < 10")
    case mlt: True
    show ?thesis
    proof (cases "n < 10")
      case True
      with mlt "1.prems" show ?thesis
        by (simp add: decimal.simps [of m] decimal.simps [of n] digitChar_inj)
    next
      case False
      with mlt "1.prems" decimal_nonempty [of "n div 10"] show ?thesis
        by (simp add: decimal.simps [of m] decimal.simps [of n] Cons_eq_append_conv)
    qed
  next
    case mge: False
    show ?thesis
    proof (cases "n < 10")
      case True
      with mge "1.prems" decimal_nonempty [of "m div 10"] show ?thesis
        by (simp add: decimal.simps [of m] decimal.simps [of n] append_eq_Cons_conv)
    next
      case False
      with mge "1.prems" have eq: "decimal (m div 10) = decimal (n div 10)"
        and dg: "digitChar (m mod 10) = digitChar (n mod 10)"
        by (simp_all add: decimal.simps [of m] decimal.simps [of n])
      from "1.IH" [OF mge eq] have "m div 10 = n div 10" .
      moreover from dg have "m mod 10 = n mod 10" by (simp add: digitChar_inj)
      ultimately show ?thesis by (metis div_mult_mod_eq)
    qed
  qed
qed

lemma editorId_inj: "editorId m = editorId n \<Longrightarrow> m = n"
  by (simp add: editorId_def decimal_inj)

lemma presentIds_simps [simp]:
  "presentIds [] = []"
  "presentIds (e # es) =
     (case getAttribute ''data-editor-id'' e of None \<Rightarrow> presentIds es | Some v \<Rightarrow> v # presentIds es)"
  by (simp_all add: presentIds_def List.map_filter_simps split: option.splits)

lemma attachAll_append:
  "attachAll (xs @ ys) c = attachAll xs c @ attachAll ys (c + untagged xs)"
  by (induction xs arbitrary: c) (auto simp: untagged_def attachId_def)

text \<open>The walk over the tree does to the elements what the loop body does to their list.\<close>

lemma walk_flat:
  "elements (fst (walkNode n c)) = attachAll (elements n) c
     \<and> snd (walkNode n c) = c + untagged (elements n)"
  "elementsOf (fst (walkNodes ns c)) = attachAll (elementsOf ns) c
     \<and> snd (walkNodes ns c) = c + untagged (elementsOf ns)"
proof (induction n c and ns c rule: walkNode_walkNodes.induct)
  case (2 el cs counter)
  then show ?case
    by (auto split: prod.splits simp: attachId_def untagged_def)
next
  case (4 n ns counter)
  then show ?case
    by (auto split: prod.splits simp: attachAll_append untagged_def)
qed (auto simp: untagged_def)

lemma attachAll_ids:
  "set (map (getAttribute ''data-editor-id'') (attachAll es c))
     = Some ` (set (presentIds es) \<union> editorId ` {c ..< c + untagged es})"
proof (induction es arbitrary: c)
  case Nil
  then show ?case by (simp add: untagged_def)
next
  case (Cons e es)
  show ?case
  proof (cases "hasAttribute ''data-editor-id'' e")
    case True
    then obtain v where v: "getAttribute ''data-editor-id'' e = Some v"
      by (auto simp: hasAttribute_def)
    from True have u: "untagged (e # es) = untagged es" by (simp add: untagged_def)
    show ?thesis using True v Cons.IH [of c]
      by (simp add: attachId_def u)
  next
    case False
    then have v: "getAttribute ''data-editor-id'' e = None"
      by (auto simp: hasAttribute_def)
    from False have u: "untagged (e # es) = Suc (untagged es)" by (simp add: untagged_def)
    have "{c ..< c + Suc (untagged es)} = insert c {Suc c ..< Suc c + untagged es}"
      by auto
    then show ?thesis using False v Cons.IH [of "Suc c"]
      by (simp add: attachId_def u)
  qed
qed

lemma attachAll_distinct:
  "distinct (presentIds es)
    \<Longrightarrow> \<forall>k \<in> {c ..< c + untagged es}. editorId k \<notin> set (presentIds es)
    \<Longrightarrow> distinct (map (getAttribute ''data-editor-id'') (attachAll es c))"
proof (induction es arbitrary: c)
  case Nil
  then show ?case by simp
next
  case (Cons e es)
  show ?case
  proof (cases "hasAttribute ''data-editor-id'' e")
    case True
    then obtain v where v: "getAttribute ''data-editor-id'' e = Some v"
      by (auto simp: hasAttribute_def)
    from True have u: "untagged (e # es) = untagged es" by (simp add: untagged_def)
    from Cons.prems v u have d: "distinct (presentIds es)" and nv: "v \<notin> set (presentIds es)"
      and fr: "\<forall>k \<in> {c ..< c + untagged es}. editorId k \<notin> set (presentIds es)"
      and fv: "\<forall>k \<in> {c ..< c + untagged es}. editorId k \<noteq> v"
      by auto
    have "Some v \<notin> set (map (getAttribute ''data-editor-id'') (attachAll es c))"
      unfolding attachAll_ids using nv fv by auto
    then show ?thesis using True v Cons.IH [OF d fr]
      by (simp add: attachId_def)
  next
    case False
    then have v: "getAttribute ''data-editor-id'' e = None"
      by (auto simp: hasAttribute_def)
    from False have u: "untagged (e # es) = Suc (untagged es)" by (simp add: untagged_def)
    from Cons.prems v u have d: "distinct (presentIds es)"
      and nc: "editorId c \<notin> set (presentIds es)"
      and fr: "\<forall>k \<in> {Suc c ..< Suc c + untagged es}. editorId k \<notin> set (presentIds es)"
      by auto
    have "Some (editorId c) \<notin> set (map (getAttribute ''data-editor-id'') (attachAll es (Suc c)))"
      unfolding attachAll_ids using nc by (auto dest: editorId_inj)
    then show ?thesis using False v Cons.IH [OF d fr]
      by (simp add: attachId_def)
  qed
qed

text \<open>
  C2, as the claim states it, fails: the identifiers after tagging need not be pairwise
  distinct when the input already carries identifiers. Two paragraphs that arrive with the
  same identifier keep it, since the Tagger never rewrites an identifier.
\<close>

theorem copied_identifiers_stay_equal:
  "identifiers (attachEditorIds copiedDocument) = [Some ''a'', Some ''a'']
   \<and> \<not> distinct (identifiers (attachEditorIds copiedDocument))"
  by code_simp

text \<open>
  The counter starts at \<open>1\<close> in every run, so a generated identifier can also meet one that
  an earlier run left further down the tree.
\<close>

lemma generated_identifier_meets_present_one:
  "identifiers insertedDocument = [None, Some ''el-1'']
   \<and> identifiers (attachEditorIds insertedDocument) = [Some ''el-1'', Some ''el-1'']"
  by code_simp

text \<open>
  C2, amended. After \<open>attachEditorIds\<close> every element under the content root carries an
  identifier. The identifiers are pairwise distinct whenever the identifiers already
  present in the input are pairwise distinct and none of them is one of the generated
  \<open>el-1\<close>, ..., \<open>el-m\<close>, where \<open>m\<close> is the number of elements that lacked an identifier.
\<close>

theorem attachEditorIds_identifiers:
  "list_all (hasAttribute ''data-editor-id'') (contentElements (attachEditorIds doc))
   \<and> (distinct (presentIds (contentElements doc))
        \<and> (\<forall>k \<in> {1 ..< 1 + untagged (contentElements doc)}.
               editorId k \<notin> set (presentIds (contentElements doc)))
      \<longrightarrow> distinct (identifiers (attachEditorIds doc)))"
  using walk_tagged(2) [of "bodyChildren doc" 1] walk_flat(2) [of "bodyChildren doc" 1]
    attachAll_distinct [of "elementsOf (bodyChildren doc)" 1]
  by (simp add: attachEditorIds_def contentElements_def identifiers_def)

theorem attachEditorIds_identifiers_witness:
  "presentIds (contentElements sampleDocument) = [''el-7'']
   \<and> untagged (contentElements sampleDocument) = 3
   \<and> map editorId [1, 2, 3] = [''el-1'', ''el-2'', ''el-3'']
   \<and> list_all (hasAttribute ''data-editor-id'') (contentElements (attachEditorIds sampleDocument))
   \<and> distinct (identifiers (attachEditorIds sampleDocument))"
  using attachEditorIds_identifiers [of sampleDocument]
  by code_simp

section \<open>Paths, updates and queries\<close>

lemma elemAt_simps [simp]:
  "elemAt p (Text s) = None"
  "elemAt [] (Element e cs) = Some e"
  "elemAt (i # p) (Element e cs) = (if i < length cs then elemAt p (cs ! i) else None)"
  by (cases p; simp add: elemAt_def)+

lemma nodeAt_append:
  "nodeAt (p @ r) t = (case nodeAt p t of None \<Rightarrow> None | Some n \<Rightarrow> nodeAt r n)"
  by (induction p t rule: nodeAt.induct) auto

lemma nodeAt_updateAt_below:
  "nodeAt (p @ r) (updateAt g p t) = (case nodeAt p t of None \<Rightarrow> None | Some n \<Rightarrow> nodeAt r (g n))"
  by (induction g p t rule: updateAt.induct) auto

lemma elemAt_updateAt_outside:
  "\<not> prefix p q \<Longrightarrow> elemAt q (updateAt g p t) = elemAt q t"
proof (induction g p t arbitrary: q rule: updateAt.induct)
  case (1 f n)
  then show ?case by simp
next
  case (2 f i p s)
  then show ?case by simp
next
  case (3 f i p e cs)
  show ?case
  proof (cases q)
    case Nil
    then show ?thesis by simp
  next
    case (Cons j q')
    show ?thesis
    proof (cases "j = i")
      case True
      with Cons "3.prems" have "\<not> prefix p q'" by simp
      with "3.IH" Cons True show ?thesis by simp
    next
      case False
      with Cons show ?thesis by simp
    qed
  qed
qed

lemma elemAt_append:
  "elemAt (p @ r) t = (case nodeAt p t of None \<Rightarrow> None | Some n \<Rightarrow> elemAt r n)"
  by (simp add: elemAt_def nodeAt_append split: option.splits)

lemma elemAt_updateAt_below:
  "elemAt (p @ r) (updateAt g p t) = (case nodeAt p t of None \<Rightarrow> None | Some n \<Rightarrow> elemAt r (g n))"
  by (simp add: elemAt_def nodeAt_updateAt_below split: option.splits)

lemma elemAt_onElement:
  "elemAt r (onElement f n) = (if r = [] then map_option f (elemAt r n) else elemAt r n)"
  by (cases n; cases r) (simp_all add: onElement_def)

lemma elemAt_update_elem:
  "elemAt q (updateAt (onElement f) p t) = (if q = p then map_option f (elemAt q t) else elemAt q t)"
proof (cases "prefix p q")
  case True
  then obtain r where q: "q = p @ r" by (auto simp: prefix_def)
  have "elemAt (p @ r) (updateAt (onElement f) p t)
      = (case nodeAt p t of None \<Rightarrow> None | Some n \<Rightarrow> elemAt r (onElement f n))"
    by (rule elemAt_updateAt_below)
  also have "\<dots> = (if r = [] then map_option f (elemAt (p @ r) t) else elemAt (p @ r) t)"
    using elemAt_append [of p "[]" t]
    by (simp add: elemAt_append elemAt_onElement split: option.splits)
  finally show ?thesis unfolding q by simp
next
  case False
  then have "q \<noteq> p" by auto
  with False show ?thesis by (simp add: elemAt_updateAt_outside)
qed

lemma elemAt_forEachElement:
  assumes idem: "\<And>e. f (f e) = f e"
  shows "elemAt q (forEachElement f ps t) = (if q \<in> set ps then map_option f (elemAt q t) else elemAt q t)"
proof (induction ps arbitrary: t)
  case Nil
  then show ?case by (simp add: forEachElement_def)
next
  case (Cons p ps)
  have "forEachElement f (p # ps) t = forEachElement f ps (updateAt (onElement f) p t)"
    by (simp add: forEachElement_def)
  then show ?case using Cons.IH [of "updateAt (onElement f) p t"]
    by (auto simp: elemAt_update_elem idem option.map_comp comp_def)
qed

lemma paths_valid:
  "p \<in> set (elementPaths t) \<longleftrightarrow> elemAt p t \<noteq> None"
  "p \<in> set (childPaths i cs) \<longleftrightarrow> (\<exists>j r. p = (i + j) # r \<and> j < length cs \<and> elemAt r (cs ! j) \<noteq> None)"
proof (induction t and i cs arbitrary: p and p rule: elementPaths_childPaths.induct)
  case (1 s)
  then show ?case by simp
next
  case (2 e cs)
  show ?case
  proof (cases p)
    case Nil
    then show ?thesis by simp
  next
    case (Cons j r)
    with 2 show ?thesis by auto
  qed
next
  case (3 i)
  then show ?case by simp
next
  case (4 i c cs)
  have "(\<exists>j r. p = (i + j) # r \<and> j < length (c # cs) \<and> elemAt r ((c # cs) ! j) \<noteq> None)
      \<longleftrightarrow> (\<exists>r. p = i # r \<and> elemAt r c \<noteq> None)
          \<or> (\<exists>j r. p = (Suc i + j) # r \<and> j < length cs \<and> elemAt r (cs ! j) \<noteq> None)"
    (is "?L \<longleftrightarrow> ?A \<or> ?B")
  proof
    assume ?L
    then obtain j r where h: "p = (i + j) # r" "j < length (c # cs)" "elemAt r ((c # cs) ! j) \<noteq> None"
      by blast
    show "?A \<or> ?B"
    proof (cases j)
      case 0
      with h show ?thesis by simp
    next
      case (Suc k)
      with h have "p = (Suc i + k) # r \<and> k < length cs \<and> elemAt r (cs ! k) \<noteq> None" by simp
      then show ?thesis by blast
    qed
  next
    assume "?A \<or> ?B"
    then show ?L
    proof
      assume ?A
      then obtain r where "p = (i + 0) # r \<and> 0 < length (c # cs) \<and> elemAt r ((c # cs) ! 0) \<noteq> None"
        by auto
      then show ?L by blast
    next
      assume ?B
      then obtain j r where "p = (i + Suc j) # r \<and> Suc j < length (c # cs) \<and> elemAt r ((c # cs) ! Suc j) \<noteq> None"
        by auto
      then show ?L by blast
    qed
  qed
  with 4 show ?case by auto
qed

lemma paths_distinct:
  "distinct (elementPaths t)"
  "distinct (childPaths i cs)"
proof (induction t and i cs rule: elementPaths_childPaths.induct)
  case (2 e cs)
  then show ?case by (auto simp: paths_valid(2))
next
  case (4 i c cs)
  then show ?case by (auto simp: distinct_map paths_valid(2))
qed simp_all

lemma in_querySelectorAll:
  "q \<in> set (querySelectorAll sel t) \<longleftrightarrow> (\<exists>e. elemAt q t = Some e \<and> sel e)"
  by (auto simp: querySelectorAll_def paths_valid(1) split: option.splits)

lemma querySelectorAll_empty:
  "querySelectorAll sel t = [] \<longleftrightarrow> (\<forall>q e. elemAt q t = Some e \<longrightarrow> \<not> sel e)"
proof -
  have "querySelectorAll sel t = [] \<longleftrightarrow> (\<forall>q. q \<notin> set (querySelectorAll sel t))"
    by (cases "querySelectorAll sel t") auto
  then show ?thesis
    unfolding in_querySelectorAll by blast
qed

lemma querySelectorAll_single:
  assumes "\<And>q. (\<exists>e. elemAt q t = Some e \<and> sel e) \<longleftrightarrow> q = b"
  shows "querySelectorAll sel t = [b]"
proof -
  have d: "distinct (querySelectorAll sel t)"
    by (simp add: querySelectorAll_def paths_distinct(1))
  have m: "set (querySelectorAll sel t) = {b}"
    using assms by (auto simp: in_querySelectorAll)
  show ?thesis
  proof (cases "querySelectorAll sel t")
    case Nil
    with m show ?thesis by simp
  next
    case (Cons x xs)
    with m have x: "x = b" by auto
    from Cons d m x have "xs = []" by (cases xs) auto
    with Cons x show ?thesis by simp
  qed
qed


lemma querySelector_None:
  "querySelector sel t = None \<longleftrightarrow> (\<forall>q e. elemAt q t = Some e \<longrightarrow> \<not> sel e)"
  using querySelectorAll_empty [of sel t]
  by (auto simp: querySelector_def split: list.splits)


section \<open>The click listener\<close>

declare fold_replicate [simp del]

lemma elemAt_nodeAt:
  "elemAt p t = Some e \<longleftrightarrow> (\<exists>cs. nodeAt p t = Some (Element e cs))"
  by (auto simp: elemAt_def split: option.splits node.splits)

lemma click_unfold:
  assumes el: "elemAt target (dom s) = Some el"
  shows "\<exists>e cs. nodeAt target (dom (clickHandler B target s)) = Some (Element e cs)
           \<and> posted (clickHandler B target s)
               = posted s @ [Selection (getAttribute ''data-editor-id'' e)
                               (toLowerCase (tagName e)) (serializer B (Element e cs))]
           \<and> ranges (clickHandler B target s)
               = (if toLowerCase (tagName el) = ''img'' then ranges s else [Contents target])
           \<and> listeners (clickHandler B target s) = listeners s
           \<and> observing (clickHandler B target s) = observing s
           \<and> queued (clickHandler B target s) = queued s
           \<and> draws (clickHandler B target s) = draws s
           \<and> (\<forall>q. elemAt q (dom (clickHandler B target s))
                 = map_option (afterClick (q = target) (toLowerCase (tagName el) = ''img''))
                     (elemAt q (dom s)))"
proof -
  define img where "img = (toLowerCase (tagName el) = ''img'')"
  define d1 where "d1 = forEachElement (removeAttribute ''data-selected'')
                      (querySelectorAll (hasAttribute ''data-editor-id'') (dom s)) (dom s)"
  define d2 where "d2 = updateAt (onElement (setAttribute ''data-selected'' ''true'')) target d1"
  define d3 where "d3 = (if \<not> img
                     then updateAt (onElement (setAttribute ''contentEditable'' ''true'')) target d2
                     else d2)"
  have e1: "elemAt q d1 = map_option (\<lambda>e. if hasAttribute ''data-editor-id'' e
                then removeAttribute ''data-selected'' e else e) (elemAt q (dom s))" for q
    unfolding d1_def
    by (cases "elemAt q (dom s)") (auto simp: elemAt_forEachElement in_querySelectorAll)
  have e3: "elemAt q d3 = map_option (afterClick (q = target) img) (elemAt q (dom s))" for q
    unfolding d3_def d2_def
    by (cases "elemAt q (dom s)")
       (auto simp: elemAt_update_elem e1 afterClick_def Let_def)
  from e3 [of target] el obtain e cs where n: "nodeAt target d3 = Some (Element e cs)"
    by (auto simp: elemAt_nodeAt)
  have c: "clickHandler B target s =
      s\<lparr>dom := d3, ranges := (if \<not> img then [Contents target] else ranges s),
        posted := posted s @ [Selection (getAttribute ''data-editor-id'' e)
                                (toLowerCase (tagName e)) (serializer B (Element e cs))]\<rparr>"
    using n el unfolding clickHandler_def d3_def d2_def d1_def img_def Let_def
    by simp
  show ?thesis
    using n e3 unfolding c img_def by auto
qed

lemma click_invalid: "elemAt target (dom s) = None \<Longrightarrow> clickHandler B target s = s"
  by (simp add: clickHandler_def)

lemma afterClick_marker [simp]:
  "hasAttribute ''data-selected'' (afterClick hit img e) \<longleftrightarrow> hit \<or> strayMarker e"
  by (auto simp: afterClick_def Let_def strayMarker_def)

lemma afterClick_marker_value:
  "getAttribute ''data-selected'' (afterClick True img e) = Some ''true''"
  by (auto simp: afterClick_def Let_def)

lemma afterClick_id [simp]:
  "getAttribute ''data-editor-id'' (afterClick hit img e) = getAttribute ''data-editor-id'' e"
  by (auto simp: afterClick_def Let_def)

lemma afterClick_has_id [simp]:
  "hasAttribute ''data-editor-id'' (afterClick hit img e) = hasAttribute ''data-editor-id'' e"
  by (simp add: hasAttribute_def)

lemma afterClick_editable:
  "getAttribute ''contentEditable'' (afterClick hit img e)
     = (if hit \<and> \<not> img then Some ''true'' else getAttribute ''contentEditable'' e)"
  by (auto simp: afterClick_def Let_def)

lemma afterClick_tag [simp]: "tagName (afterClick hit img e) = tagName e"
  by (auto simp: afterClick_def Let_def setAttribute_def removeAttribute_def)

text \<open>What every run of the click listener leaves as it is.\<close>

lemma handler_keeps:
  "listeners (clickHandler B t s) = listeners s"
  "observing (clickHandler B t s) = observing s"
  "queued (clickHandler B t s) = queued s"
  "draws (clickHandler B t s) = draws s"
  "map_option tagName (elemAt q (dom (clickHandler B t s))) = map_option tagName (elemAt q (dom s))"
  "map_option (getAttribute ''data-editor-id'') (elemAt q (dom (clickHandler B t s)))
     = map_option (getAttribute ''data-editor-id'') (elemAt q (dom s))"
  "editableAt (dom s) q \<Longrightarrow> editableAt (dom (clickHandler B t s)) q"
proof -
  show "listeners (clickHandler B t s) = listeners s"
    "observing (clickHandler B t s) = observing s"
    "queued (clickHandler B t s) = queued s"
    "draws (clickHandler B t s) = draws s"
    using click_unfold [of t s _ B] click_invalid [of t s B]
    by (cases "elemAt t (dom s)"; auto)+
  show "map_option tagName (elemAt q (dom (clickHandler B t s))) = map_option tagName (elemAt q (dom s))"
    using click_unfold [of t s _ B] click_invalid [of t s B]
    by (cases "elemAt t (dom s)"; cases "elemAt q (dom s)"; auto)
  show "map_option (getAttribute ''data-editor-id'') (elemAt q (dom (clickHandler B t s)))
     = map_option (getAttribute ''data-editor-id'') (elemAt q (dom s))"
    using click_unfold [of t s _ B] click_invalid [of t s B]
    by (cases "elemAt t (dom s)"; cases "elemAt q (dom s)"; auto)
  show "editableAt (dom s) q \<Longrightarrow> editableAt (dom (clickHandler B t s)) q"
    using click_unfold [of t s _ B] click_invalid [of t s B]
    by (cases "elemAt t (dom s)"; cases "elemAt q (dom s)";
        auto simp: editableAt_def afterClick_editable)
qed

lemma handlers_keep:
  "listeners (fold (clickHandler B) ts s) = listeners s"
  "observing (fold (clickHandler B) ts s) = observing s"
  "queued (fold (clickHandler B) ts s) = queued s"
  "draws (fold (clickHandler B) ts s) = draws s"
  "map_option tagName (elemAt q (dom (fold (clickHandler B) ts s)))
     = map_option tagName (elemAt q (dom s))"
  "map_option (getAttribute ''data-editor-id'') (elemAt q (dom (fold (clickHandler B) ts s)))
     = map_option (getAttribute ''data-editor-id'') (elemAt q (dom s))"
  "editableAt (dom s) q \<Longrightarrow> editableAt (dom (fold (clickHandler B) ts s)) q"
  by (induction ts arbitrary: s; simp add: handler_keeps)+

lemma listenerTarget_self: "p \<in> set ls \<Longrightarrow> listenerTarget ls p = Some p"
proof -
  assume m: "p \<in> set ls"
  obtain qs where "rev (prefixes p) = p # qs"
    by (cases p rule: rev_cases) simp_all
  with m show ?thesis by (simp add: listenerTarget_def)
qed

lemma listenerTarget_none:
  "(\<And>q. prefix q p \<Longrightarrow> q \<notin> set ls) \<Longrightarrow> listenerTarget ls p = None"
proof -
  assume a: "\<And>q. prefix q p \<Longrightarrow> q \<notin> set ls"
  have "filter (\<lambda>q. q \<in> set ls) (rev (prefixes p)) = []"
    unfolding filter_empty_conv using a by (auto simp: in_set_prefixes)
  then show ?thesis by (simp add: listenerTarget_def)
qed

lemma click_runs:
  assumes "p \<in> set (listeners s)" "elemAt p (dom s) \<noteq> None"
  shows "click B p s = fold (clickHandler B) (replicate (count_list (listeners s) p) p) s"
  using assms by (auto simp: click_def listenerTarget_self fold_replicate)

lemma count_list_pos: "p \<in> set ls \<Longrightarrow> 0 < count_list ls p"
  by (induction ls) auto

text \<open>Runs of the listener on an image leave \<open>contentEditable\<close> as it is everywhere.\<close>

lemma image_runs_keep:
  assumes "elemAt t (dom s) = Some el" "toLowerCase (tagName el) = ''img''"
  shows "map_option (getAttribute ''contentEditable'') (elemAt q (dom (fold (clickHandler B) (replicate k t) s)))
           = map_option (getAttribute ''contentEditable'') (elemAt q (dom s))
       \<and> ranges (fold (clickHandler B) (replicate k t) s) = ranges s"
  using assms
proof (induction k arbitrary: s el)
  case 0
  then show ?case by simp
next
  case (Suc k)
  from click_unfold [OF Suc.prems(1), of B] Suc.prems have
    r: "ranges (clickHandler B t s) = ranges s"
    and ef: "\<And>q. elemAt q (dom (clickHandler B t s))
               = map_option (afterClick (q = t) True) (elemAt q (dom s))"
    by auto
  from ef [of t] Suc.prems have el': "elemAt t (dom (clickHandler B t s)) = Some (afterClick True True el)"
    by simp
  have tg: "toLowerCase (tagName (afterClick True True el)) = ''img''"
    using Suc.prems(2) by simp
  from Suc.IH [OF el' tg] show ?case
    by (cases "elemAt q (dom s)") (simp_all add: r ef afterClick_editable)
qed

lemma click_effect:
  assumes "target \<in> set (listeners s)" and "elemAt target (dom s) = Some el"
  shows "(toLowerCase (tagName el) = ''img'' \<longrightarrow>
            map_option (getAttribute ''contentEditable'') (elemAt target (dom (click B target s)))
              = Some (getAttribute ''contentEditable'' el))
       \<and> (toLowerCase (tagName el) \<noteq> ''img'' \<longrightarrow>
            map_option (getAttribute ''contentEditable'') (elemAt target (dom (click B target s)))
              = Some (Some ''true'')
            \<and> ranges (click B target s) = [Contents target])"
proof -
  from assms have c: "click B target s
      = fold (clickHandler B) (replicate (count_list (listeners s) target) target) s"
    by (simp add: click_runs)
  from count_list_pos [OF assms(1)] obtain k where k: "count_list (listeners s) target = Suc k"
    by (cases "count_list (listeners s) target") auto
  define m where "m = fold (clickHandler B) (replicate k target) s"
  have "replicate (Suc k) target = replicate k target @ [target]"
    by (simp add: replicate_append_same)
  then have c': "click B target s = clickHandler B target m"
    unfolding c k m_def by (simp only: fold_append fold_simps comp_def id_def)
  have "map_option tagName (elemAt target (dom m)) = Some (tagName el)"
    unfolding m_def using assms(2) by (simp add: handlers_keep)
  then obtain em where em: "elemAt target (dom m) = Some em" and tg: "tagName em = tagName el"
    by auto
  from click_unfold [OF em, of B] have
    r: "ranges (clickHandler B target m)
          = (if toLowerCase (tagName el) = ''img'' then ranges m else [Contents target])"
    and ef: "elemAt target (dom (clickHandler B target m))
               = Some (afterClick True (toLowerCase (tagName el) = ''img'') em)"
    using em tg by auto
  have 1: "toLowerCase (tagName el) = ''img'' \<longrightarrow>
            map_option (getAttribute ''contentEditable'') (elemAt target (dom (click B target s)))
              = Some (getAttribute ''contentEditable'' el)"
  proof
    assume img: "toLowerCase (tagName el) = ''img''"
    from image_runs_keep [OF assms(2) img, of target B "Suc k"]
    show "map_option (getAttribute ''contentEditable'') (elemAt target (dom (click B target s)))
              = Some (getAttribute ''contentEditable'' el)"
      unfolding c k using assms(2) by simp
  qed
  have 2: "toLowerCase (tagName el) \<noteq> ''img'' \<longrightarrow>
            map_option (getAttribute ''contentEditable'') (elemAt target (dom (click B target s)))
              = Some (Some ''true'')
            \<and> ranges (click B target s) = [Contents target]"
    unfolding c' by (simp add: r ef afterClick_editable)
  from 1 2 show ?thesis by blast
qed

lemma click_markers:
  assumes idt: "identifiableAt (dom s) target"
  shows "querySelectorAll identifiedMarker (dom (clickHandler B target s)) = [target]"
    and "map_option (getAttribute ''data-selected'') (elemAt target (dom (clickHandler B target s)))
          = Some (Some ''true'')"
    and "querySelectorAll strayMarker (dom s) = [] \<Longrightarrow>
          querySelectorAll (hasAttribute ''data-selected'') (dom (clickHandler B target s)) = [target]"
    and "querySelectorAll strayMarker (dom s) = [] \<Longrightarrow>
          querySelectorAll strayMarker (dom (clickHandler B target s)) = []"
    and "identifiableAt (dom (clickHandler B target s)) q = identifiableAt (dom s) q"
    and "\<exists>ms i t m. posted (clickHandler B target s) = ms @ [Selection i t m]
          \<and> Some i = map_option (getAttribute ''data-editor-id'') (elemAt target (dom s))"
proof -
  from idt obtain el where el: "elemAt target (dom s) = Some el"
    and hid: "hasAttribute ''data-editor-id'' el"
    by (auto simp: identifiableAt_def split: option.splits)
  from click_unfold [OF el, of B] obtain e cs where
    n: "nodeAt target (dom (clickHandler B target s)) = Some (Element e cs)"
    and po: "posted (clickHandler B target s)
               = posted s @ [Selection (getAttribute ''data-editor-id'' e)
                               (toLowerCase (tagName e)) (serializer B (Element e cs))]"
    and ef: "\<And>q. elemAt q (dom (clickHandler B target s))
                 = map_option (afterClick (q = target) (toLowerCase (tagName el) = ''img''))
                     (elemAt q (dom s))"
    by blast
  show "querySelectorAll identifiedMarker (dom (clickHandler B target s)) = [target]"
  proof (rule querySelectorAll_single)
    fix q
    show "(\<exists>e. elemAt q (dom (clickHandler B target s)) = Some e \<and> identifiedMarker e)
            \<longleftrightarrow> q = target"
      using el hid
      by (cases "elemAt q (dom s)") (auto simp: ef identifiedMarker_def strayMarker_def)
  qed
  show "map_option (getAttribute ''data-selected'') (elemAt target (dom (clickHandler B target s)))
          = Some (Some ''true'')"
    using el by (simp add: ef afterClick_marker_value)
  show "identifiableAt (dom (clickHandler B target s)) q = identifiableAt (dom s) q"
    by (cases "elemAt q (dom s)") (auto simp: identifiableAt_def ef)
  from n have "elemAt target (dom (clickHandler B target s)) = Some e"
    by (auto simp: elemAt_nodeAt)
  with el have "getAttribute ''data-editor-id'' e = getAttribute ''data-editor-id'' el"
    by (auto simp: ef)
  with po el show "\<exists>ms i t m. posted (clickHandler B target s) = ms @ [Selection i t m]
          \<and> Some i = map_option (getAttribute ''data-editor-id'') (elemAt target (dom s))"
    by auto
  {
    assume stray: "querySelectorAll strayMarker (dom s) = []"
    then have ns: "\<And>q e. elemAt q (dom s) = Some e \<Longrightarrow> \<not> strayMarker e"
      by (simp add: querySelectorAll_empty)
    show "querySelectorAll (hasAttribute ''data-selected'') (dom (clickHandler B target s)) = [target]"
    proof (rule querySelectorAll_single)
      fix q
      show "(\<exists>e. elemAt q (dom (clickHandler B target s)) = Some e \<and> hasAttribute ''data-selected'' e)
              \<longleftrightarrow> q = target"
        using el ns [of q] by (cases "elemAt q (dom s)") (auto simp: ef)
    qed
    show "querySelectorAll strayMarker (dom (clickHandler B target s)) = []"
      unfolding querySelectorAll_empty
    proof (intro allI impI)
      fix q e' assume a: "elemAt q (dom (clickHandler B target s)) = Some e'"
      then obtain e0 where e0: "elemAt q (dom s) = Some e0"
        and e': "e' = afterClick (q = target) (toLowerCase (tagName el) = ''img'') e0"
        by (auto simp: ef)
      show "\<not> strayMarker e'"
        using ns [OF e0] el hid e0 unfolding e' by (auto simp: strayMarker_def)
    qed
  }
qed

lemma handler_selection_last:
  "selectedId (fold (handler r) (ms @ [Selection i t m]) h) = i"
  by (simp add: handler_def)

text \<open>Runs of the click listener, one after the other, on identifiable elements.\<close>

lemma handler_runs_select:
  assumes "ts \<noteq> []" and "list_all (identifiableAt (dom s)) ts"
  shows "querySelectorAll identifiedMarker (dom (fold (clickHandler B) ts s)) = [last ts]
       \<and> map_option (getAttribute ''data-selected'') (elemAt (last ts) (dom (fold (clickHandler B) ts s)))
           = Some (Some ''true'')
       \<and> (querySelectorAll strayMarker (dom s) = [] \<longrightarrow>
            querySelectorAll (hasAttribute ''data-selected'') (dom (fold (clickHandler B) ts s))
              = [last ts])
       \<and> (\<exists>ms i t m. posted (fold (clickHandler B) ts s) = ms @ [Selection i t m]
            \<and> Some i = map_option (getAttribute ''data-editor-id'') (elemAt (last ts) (dom s)))"
  using assms
proof (induction ts arbitrary: s)
  case Nil
  then show ?case by simp
next
  case (Cons p ps)
  from Cons.prems have idp: "identifiableAt (dom s) p" by simp
  note cm = click_markers [where B = B, OF idp]
  show ?case
  proof (cases "ps = []")
    case True
    show ?thesis using True cm(1) cm(2) cm(3) cm(6) by simp
  next
    case False
    from Cons.prems(2) have "list_all (identifiableAt (dom (clickHandler B p s))) ps"
      by (simp add: list_all_iff cm(5))
    from Cons.IH [OF False this] False cm(4) show ?thesis
      by (simp add: handler_keeps(6))
  qed
qed

text \<open>A sequence of clicks on elements with the listener is a sequence of runs of it.\<close>

lemma run_Cons [simp]: "run B (ev # evs) s = run B evs (step B ev s)"
  by (simp add: run_def)

lemma run_Nil [simp]: "run B [] s = s"
  by (simp add: run_def)

lemma step_Click [simp]: "step B (Click p) s = click B p s"
  by (simp add: step_def)

lemma step_Message [simp]:
  "step B (Message m) s = deliverMutations B (messageListener B m s)"
  by (simp add: step_def)

lemma run_clicks:
  "list_all (\<lambda>p. p \<in> set (listeners s)) ps \<Longrightarrow> list_all (\<lambda>p. elemAt p (dom s) \<noteq> None) ps
     \<Longrightarrow> run B (map Click ps) s = fold (clickHandler B) (listenerRuns (listeners s) ps) s"
proof (induction ps arbitrary: s)
  case Nil
  then show ?case by (simp add: listenerRuns_def)
next
  case (Cons p ps)
  define s1 where "s1 = fold (clickHandler B) (replicate (count_list (listeners s) p) p) s"
  from Cons.prems have c: "click B p s = s1"
    unfolding s1_def by (simp add: click_runs)
  have ls: "listeners s1 = listeners s" unfolding s1_def by (simp add: handlers_keep)
  have "\<And>q. (elemAt q (dom s1) \<noteq> None) = (elemAt q (dom s) \<noteq> None)"
    using handlers_keep(5) [of _ B "replicate (count_list (listeners s) p) p" s]
    unfolding s1_def by (metis option.map_disc_iff)
  with Cons.prems ls have "list_all (\<lambda>p. p \<in> set (listeners s1)) ps"
    "list_all (\<lambda>p. elemAt p (dom s1) \<noteq> None) ps"
    by (simp_all add: list_all_iff)
  from Cons.IH [OF this] have "run B (map Click ps) s1
      = fold (clickHandler B) (listenerRuns (listeners s) ps) s1"
    by (simp only: ls)
  moreover have "fold (clickHandler B) (listenerRuns (listeners s) (p # ps)) s
      = fold (clickHandler B) (listenerRuns (listeners s) ps) s1"
    by (simp add: listenerRuns_def s1_def)
  ultimately show ?case by (simp add: c)
qed

lemma listenerRuns_last:
  "ps \<noteq> [] \<Longrightarrow> list_all (\<lambda>p. p \<in> set ls) ps
     \<Longrightarrow> listenerRuns ls ps \<noteq> [] \<and> last (listenerRuns ls ps) = last ps
         \<and> set (listenerRuns ls ps) \<subseteq> set ps"
proof (induction ps rule: rev_induct)
  case Nil
  then show ?case by simp
next
  case (snoc p ps)
  then have "0 < count_list ls p" by (simp add: count_list_pos)
  then obtain k where k: "count_list ls p = Suc k" by (cases "count_list ls p") auto
  have "set (listenerRuns ls ps) \<subseteq> set ps"
    by (auto simp: listenerRuns_def)
  then show ?case
    by (auto simp: listenerRuns_def k)
qed


section \<open>The message listener\<close>

lemma clear_dom:
  "elemAt q (dom (messageListener B ClearSelection s))
     = map_option (removeAttribute ''data-selected'') (elemAt q (dom s))"
proof (cases "elemAt q (dom s)")
  case None
  then show ?thesis
    by (simp add: messageListener_def elemAt_forEachElement in_querySelectorAll)
next
  case (Some e)
  have "\<not> hasAttribute ''data-selected'' e \<Longrightarrow> removeAttribute ''data-selected'' e = e"
    by (simp add: hasAttribute_def getAttribute_def removeAttribute_def map_of_eq_None_iff
        delete_notin_dom delete_id)
  with Some show ?thesis
    by (auto simp: messageListener_def elemAt_forEachElement in_querySelectorAll)
qed

lemma locate_plain:
  "plainId i \<Longrightarrow> locate engine i root = Some (querySelector (idIs i) root)"
  by (simp add: locate_def plainId_def)

lemma nodeAt_updateAt_same:
  "nodeAt p (updateAt g p t) = map_option g (nodeAt p t)"
  using nodeAt_updateAt_below [of p "[]" g t] by (simp split: option.splits)

lemma tagName_setAttribute [simp]: "tagName (setAttribute n v e) = tagName e"
  by (simp add: setAttribute_def)

lemma style_setAttribute [simp]: "style (setAttribute n v e) = style e"
  by (simp add: setAttribute_def)

lemma getAttribute_style_update [simp]: "getAttribute n (e\<lparr>style := st\<rparr>) = getAttribute n e"
  by (simp add: getAttribute_def)

text \<open>An assignment to \<open>innerHTML\<close>: the children of the element, and nothing outside it.\<close>

lemma setInnerHTML_node:
  "nodeAt p (dom s) = Some (Element e cs) \<Longrightarrow>
     nodeAt p (dom (setInnerHTML B p v s)) = Some (Element e (fragmentParser B e v))"
  by (simp add: setInnerHTML_def Let_def nodeAt_updateAt_same)

lemma setInnerHTML_elem:
  "\<not> strict_prefix p q \<Longrightarrow> elemAt q (dom (setInnerHTML B p v s)) = elemAt q (dom s)"
proof (cases "nodeAt p (dom s)")
  case None
  then show ?thesis by (simp add: setInnerHTML_def)
next
  case (Some n)
  assume ns: "\<not> strict_prefix p q"
  show ?thesis
  proof (cases n)
    case (Text t)
    with Some show ?thesis by (simp add: setInnerHTML_def)
  next
    case (Element e cs)
    show ?thesis
    proof (cases "q = p")
      case True
      from setInnerHTML_node [of p s e cs B v] Some Element
      have "elemAt p (dom (setInnerHTML B p v s)) = Some e" by (simp add: elemAt_nodeAt)
      moreover from Some Element have "elemAt p (dom s) = Some e" by (simp add: elemAt_nodeAt)
      ultimately show ?thesis using True by simp
    next
      case False
      with ns have "\<not> prefix p q" by (auto simp: strict_prefix_def)
      with Some Element show ?thesis
        by (simp add: setInnerHTML_def Let_def elemAt_updateAt_outside)
    qed
  qed
qed

lemma setInnerHTML_posted [simp]: "posted (setInnerHTML B p v s) = posted s"
  by (simp add: setInnerHTML_def Let_def split: option.splits node.splits)

text \<open>An entry other than \<open>innerHTML\<close>: the located element only, and not its children.\<close>

lemma applyEntry_other:
  assumes "k \<noteq> ''innerHTML''"
  shows "q \<noteq> p \<Longrightarrow> elemAt q (dom (applyEntry B p (k, v) s)) = elemAt q (dom s)"
    and "toLowerCase n \<noteq> ''src'' \<Longrightarrow>
          map_option (getAttribute n) (elemAt q (dom (applyEntry B p (k, v) s)))
            = map_option (getAttribute n) (elemAt q (dom s))"
  using assms
  by (cases "elemAt p (dom s)"; cases "elemAt q (dom s)";
      auto simp: applyEntry_def elemAt_update_elem)+

lemma applyEntry_posted [simp]: "posted (applyEntry B p kv s) = posted s"
  by (cases kv) (simp add: applyEntry_def split: option.splits)


lemma entries_outside:
  "\<not> prefix p q \<Longrightarrow> elemAt q (dom (fold (applyEntry B p) kvs s)) = elemAt q (dom s)"
proof (induction kvs arbitrary: s)
  case Nil
  then show ?case by simp
next
  case (Cons kv kvs)
  obtain k v where kv: "kv = (k, v)" by (cases kv)
  from Cons.prems have qp: "q \<noteq> p" and ns: "\<not> strict_prefix p q"
    by (auto simp: strict_prefix_def)
  have "elemAt q (dom (applyEntry B p kv s)) = elemAt q (dom s)"
    unfolding kv using qp ns
    by (cases "k = ''innerHTML''") (simp_all add: applyEntry_other(1), simp add: applyEntry_def setInnerHTML_elem)
  with Cons.IH [OF Cons.prems] show ?case by simp
qed

lemma entries_other:
  "\<not> list_ex (\<lambda>kv. fst kv = ''innerHTML'') kvs \<Longrightarrow> q \<noteq> p
     \<Longrightarrow> elemAt q (dom (fold (applyEntry B p) kvs s)) = elemAt q (dom s)"
proof (induction kvs arbitrary: s)
  case Nil
  then show ?case by simp
next
  case (Cons kv kvs)
  obtain k v where kv: "kv = (k, v)" by (cases kv)
  from Cons.prems kv have k: "k \<noteq> ''innerHTML''"
    and rest: "\<not> list_ex (\<lambda>kv. fst kv = ''innerHTML'') kvs" by auto
  from Cons.IH [OF rest Cons.prems(2)] applyEntry_other(1) [OF k Cons.prems(2)] kv
  show ?case by simp
qed

lemma entries_posted [simp]: "posted (fold (applyEntry B p) kvs s) = posted s"
  by (induction kvs arbitrary: s) simp_all

lemma apply_props_located:
  "locate (selectorEngine B) i (dom s) = Some (Some p) \<Longrightarrow>
     messageListener B (ApplyProps i (Some kvs)) s = fold (applyEntry B p) kvs s"
  by (simp add: messageListener_def)


section \<open>What keeps \<open>contentEditable\<close>\<close>











section \<open>\<open>makeInteractive\<close> and the observer\<close>

text \<open>\<open>makeInteractive\<close> adds the listener to every element below the \<open>body\<close>, and to no other.\<close>

lemma wire_present:
  "(elemAt q (dom (wire B p s)) = None) = (elemAt q (dom s) = None)"
  by (auto simp: wire_def Let_def elemAt_update_elem split: option.splits)

lemma wire_listeners:
  "elemAt p (dom s) \<noteq> None \<Longrightarrow> listeners (wire B p s) = listeners s @ [p]"
  by (auto simp: wire_def Let_def)

lemma wires_listeners:
  "\<forall>p \<in> set ps. elemAt p (dom s) \<noteq> None \<Longrightarrow> listeners (fold (wire B) ps s) = listeners s @ ps"
proof (induction ps arbitrary: s)
  case Nil
  then show ?case by simp
next
  case (Cons p ps)
  from Cons.prems have "\<forall>q \<in> set ps. elemAt q (dom (wire B p s)) \<noteq> None"
    by (simp add: wire_present)
  from Cons.IH [OF this] Cons.prems show ?case by (simp add: wire_listeners)
qed

lemma below_iff:
  assumes "nodeAt b t = Some (Element e cs)"
  shows "p \<in> set (map ((@) b) (childPaths 0 cs)) \<longleftrightarrow> strict_prefix b p \<and> elemAt p t \<noteq> None"
proof
  assume "p \<in> set (map ((@) b) (childPaths 0 cs))"
  then obtain q where q: "p = b @ q" "q \<in> set (childPaths 0 cs)" by auto
  then have "q \<in> set (elementPaths (Element e cs))" by simp
  then have "elemAt q (Element e cs) \<noteq> None" using paths_valid(1) by blast
  moreover from q(2) have "q \<noteq> []" by (auto simp: paths_valid(2))
  ultimately show "strict_prefix b p \<and> elemAt p t \<noteq> None"
    using assms q(1) by (auto simp: elemAt_append strict_prefix_def)
next
  assume a: "strict_prefix b p \<and> elemAt p t \<noteq> None"
  then obtain q where q: "p = b @ q" "q \<noteq> []" by (auto simp: strict_prefix_def prefix_def)
  with a assms have "elemAt q (Element e cs) \<noteq> None" by (simp add: elemAt_append)
  then have "q \<in> set (elementPaths (Element e cs))" using paths_valid(1) by blast
  with q(2) have "q \<in> set (childPaths 0 cs)" by simp
  with q(1) show "p \<in> set (map ((@) b) (childPaths 0 cs))" by simp
qed

lemma bodyIndexFrom_Some:
  "bodyIndexFrom i ns = Some j \<Longrightarrow>
     i \<le> j \<and> j - i < length ns \<and> (\<exists>e cs. ns ! (j - i) = Element e cs)"
proof (induction i ns rule: bodyIndexFrom.induct)
  case (1 i)
  then show ?case by simp
next
  case (2 i t ns)
  then have "Suc i \<le> j \<and> j - Suc i < length ns \<and> (\<exists>e cs. ns ! (j - Suc i) = Element e cs)"
    by simp
  then show ?case by (auto simp: Suc_diff_le)
next
  case (3 i e cs ns)
  show ?case
  proof (cases "toLowerCase (tagName e) = ''body'' \<or> toLowerCase (tagName e) = ''frameset''")
    case True
    with 3 show ?thesis by auto
  next
    case False
    with 3 have "Suc i \<le> j \<and> j - Suc i < length ns \<and> (\<exists>e cs. ns ! (j - Suc i) = Element e cs)"
      by simp
    then show ?thesis by (auto simp: Suc_diff_le)
  qed
qed

lemma documentBody_element:
  "documentBody root = Some b \<Longrightarrow> \<exists>e cs. nodeAt b root = Some (Element e cs)"
  using bodyIndexFrom_Some [of 0]
  by (cases root) (auto simp: documentBody_def split: if_splits)

lemma makeInteractive_listeners:
  assumes "documentBody (dom s) = Some b"
  shows "p \<in> set (listeners (makeInteractive B s))
           \<longleftrightarrow> p \<in> set (listeners s) \<or> strict_prefix b p \<and> elemAt p (dom s) \<noteq> None"
proof -
  from documentBody_element [OF assms] obtain e cs where n: "nodeAt b (dom s) = Some (Element e cs)"
    by blast
  have "\<forall>p \<in> set (map ((@) b) (childPaths 0 cs)). elemAt p (dom s) \<noteq> None"
    using below_iff [OF n] by blast
  from wires_listeners [OF this, of B]
  have "listeners (makeInteractive B s) = listeners s @ map ((@) b) (childPaths 0 cs)"
    by (simp add: makeInteractive_def assms n)
  then show ?thesis using below_iff [OF n, of p] by auto
qed

lemma startup_listeners:
  assumes "documentBody root = Some b"
  shows "p \<in> set (listeners (startup B root)) \<longleftrightarrow> strict_prefix b p \<and> elemAt p root \<noteq> None"
  using makeInteractive_listeners [of "\<lparr>dom = root, ranges = [], posted = [], listeners = [],
      observing = None, queued = False, draws = 0\<rparr>" b p B] assms
  by (simp add: startup_def Let_def)


text \<open>The loop of \<open>makeInteractive\<close> leaves a settled element as it is, and posts nothing.\<close>

lemma setAttribute_same: "getAttribute n e = Some v \<Longrightarrow> setAttribute n v e = e"
  by (simp add: getAttribute_def setAttribute_def update_triv)

lemma wire_settled:
  assumes "elemAt q (dom s) = Some e" and "settled e"
  shows "elemAt q (dom (wire B p s)) = Some e"
proof (cases "p = q")
  case True
  with assms show ?thesis
    by (auto simp: wire_def Let_def settled_def elemAt_update_elem setAttribute_same)
next
  case False
  with assms show ?thesis
    by (auto simp: wire_def Let_def elemAt_update_elem split: option.splits)
qed

lemma wires_settled:
  "elemAt q (dom s) = Some e \<Longrightarrow> settled e \<Longrightarrow> elemAt q (dom (fold (wire B) ps s)) = Some e"
  by (induction ps arbitrary: s) (simp_all add: wire_settled)

lemma deliver_settled:
  "elemAt q (dom s) = Some e \<Longrightarrow> settled e \<Longrightarrow> elemAt q (dom (deliverMutations B s)) = Some e"
  by (auto simp: deliverMutations_def makeInteractive_def wires_settled split: option.splits node.splits)

lemma wire_settles:
  "elemAt p (dom s) \<noteq> None \<Longrightarrow> \<exists>e. elemAt p (dom (wire B p s)) = Some e \<and> settled e"
  by (auto simp: wire_def Let_def settled_def elemAt_update_elem)

lemma wire_posted [simp]: "posted (wire B p s) = posted s"
  by (simp add: wire_def Let_def split: option.splits)

lemma wires_posted [simp]: "posted (fold (wire B) ps s) = posted s"
  by (induction ps arbitrary: s) simp_all

lemma deliver_posted [simp]: "posted (deliverMutations B s) = posted s"
  by (simp add: deliverMutations_def makeInteractive_def split: option.splits node.splits)


section \<open>The injected texts\<close>

lemma line_sublist: "l \<in> set ls \<Longrightarrow> sublist l (joinLines ls)"
proof (induction ls rule: joinLines.induct)
  case 1
  then show ?case by simp
next
  case (2 l')
  then show ?case by simp
next
  case (3 l1 l2 ls)
  show ?case
  proof (cases "l = l1")
    case True
    then show ?thesis by simp
  next
    case False
    with 3 have "sublist l (joinLines (l2 # ls))" by simp
    then obtain ps ss where "joinLines (l2 # ls) = ps @ l @ ss" by (auto simp: sublist_def)
    then have "joinLines (l1 # l2 # ls) = (l1 @ CHR 0x0A # ps) @ l @ ss" by simp
    then show ?thesis unfolding sublist_def by blast
  qed
qed

lemma style_rules:
  \<open>sublist ''    [data-editor-id][data-selected="true"]{outline:3px solid #2563eb66; box-shadow:0 2px 8px rgba(37,99,235,0.12);} '' helperStyles
   \<and> sublist ''    [data-editor-id]{cursor: pointer;}'' helperStyles\<close>
  unfolding helperStyles_def by (intro conjI line_sublist) (simp_all add: styleLines_def)

lemma script_parts:
  \<open>sublist ''          el.addEventListener('click', function(ev){'' injectedScript
   \<and> sublist ''      document.addEventListener('input', function(ev){'' injectedScript
   \<and> sublist ''      window.addEventListener('message', function(e){'' injectedScript
   \<and> sublist ''      makeInteractive();'' injectedScript
   \<and> sublist ''      obs.observe(document.body, {childList:true, subtree:true});'' injectedScript
   \<and> sublist ''      post({type:'iframe-ready', html: document.documentElement.outerHTML});'' injectedScript\<close>
  unfolding injectedScript_def by (intro conjI line_sublist) (simp_all add: scriptLines_def)


text \<open>
  The frames that are evaluated below hold the injected style and script as text nodes;
  the evaluation keeps the two texts as the constants \<open>helperStyles\<close> and
  \<open>injectedScript\<close>.
\<close>

declare injectedScript_def [code del] helperStyles_def [code del]


section \<open>Clicks\<close>

text \<open>
  C6, as the claim states it, fails: an element with an identifier need not have the click
  listener. \<open>makeInteractive\<close> walks the elements below \<open>document.body\<close>, and the \<open>body\<close>
  itself is not among them. In the frame of \<open><body data-editor-id="b"><div>one</div></body>\<close>
  the \<open>body\<close>, at path \<open>[1]\<close>, is identifiable and no image, and a click on it runs no
  listener: the state of the frame is as before, and \<open>contentEditable\<close> is not set.
\<close>

theorem click_on_identified_body_does_nothing:
  "identifiableAt (dom identifiedBodyRuntime) [1]
   \<and> map_option tagName (elemAt [1] (dom identifiedBodyRuntime)) = Some ''BODY''
   \<and> listeners identifiedBodyRuntime = [[1, 0], [1, 1]]
   \<and> click sampleBrowser [1] identifiedBodyRuntime = identifiedBodyRuntime
   \<and> \<not> editableAt (dom (click sampleBrowser [1] identifiedBodyRuntime)) [1]"
  by code_simp


text \<open>
  C6, amended. The branching is that of the click listener, so it holds for the elements
  that have the listener. When the script has started these are exactly the elements
  below \<open>document.body\<close>. A click on an element with the listener leaves the
  \<open>contentEditable\<close> attribute of an image as it was; on any other element it sets the
  attribute to \<open>true\<close> and makes the text selection the one range over the contents of
  that element.
\<close>

theorem click_image_or_text:
  "(documentBody root = Some b \<longrightarrow>
      (p \<in> set (listeners (startup B root)) \<longleftrightarrow> strict_prefix b p \<and> elemAt p root \<noteq> None))
   \<and> (target \<in> set (listeners s) \<and> elemAt target (dom s) = Some el \<longrightarrow>
        (toLowerCase (tagName el) = ''img'' \<longrightarrow>
            map_option (getAttribute ''contentEditable'') (elemAt target (dom (click B target s)))
              = Some (getAttribute ''contentEditable'' el))
      \<and> (toLowerCase (tagName el) \<noteq> ''img'' \<longrightarrow>
            map_option (getAttribute ''contentEditable'') (elemAt target (dom (click B target s)))
              = Some (Some ''true'')
            \<and> ranges (click B target s) = [Contents target]))"
  using startup_listeners [of root b p B] click_effect [of target s el B] by blast

theorem click_image_or_text_witness:
  "documentBody (documentElement (servedDocument sampleDocument)) = Some [1]
   \<and> strict_prefix [1] [1, 1, 0 :: nat]
   \<and> [1, 1, 0] \<in> set (listeners sampleRuntime)
   \<and> [1, 0] \<in> set (listeners sampleRuntime)
   \<and> [1] \<notin> set (listeners sampleRuntime)
   \<and> elemAt [1, 1, 0] (dom sampleRuntime)
     = Some \<lparr>tagName = ''IMG'',
             attributes = [(''src'', ''demo.png''), (''data-editor-id'', ''el-2''), (''draggable'', ''false'')],
             style = []\<rparr>
   \<and> map_option (getAttribute ''contentEditable'')
        (elemAt [1, 1, 0] (dom (click sampleBrowser [1, 1, 0] sampleRuntime))) = Some None
   \<and> elemAt [1, 0] (dom sampleRuntime)
     = Some \<lparr>tagName = ''DIV'', attributes = [(''class'', ''card''), (''data-editor-id'', ''el-1'')],
             style = []\<rparr>
   \<and> map_option (getAttribute ''contentEditable'')
        (elemAt [1, 0] (dom (click sampleBrowser [1, 0] sampleRuntime))) = Some (Some ''true'')
   \<and> ranges (click sampleBrowser [1, 0] sampleRuntime) = [Contents [1, 0]]"
  using
    click_image_or_text [of "documentElement (servedDocument sampleDocument)" "[1]" "[1, 1, 0]"
      sampleBrowser "[1, 1, 0]" sampleRuntime
      "\<lparr>tagName = ''IMG'',
        attributes = [(''src'', ''demo.png''), (''data-editor-id'', ''el-2''), (''draggable'', ''false'')],
        style = []\<rparr>"]
    click_image_or_text [of "documentElement (servedDocument sampleDocument)" "[1]" "[1]"
      sampleBrowser "[1, 0]" sampleRuntime
      "\<lparr>tagName = ''DIV'', attributes = [(''class'', ''card''), (''data-editor-id'', ''el-1'')],
        style = []\<rparr>"]
  by code_simp

text \<open>
  C4, as the claim states it, fails: the click listener removes the marker from the
  elements matching \<open>[data-editor-id]\<close> only. In the frame of
  \<open><body data-selected="true"><div>one</div><div>two</div></body>\<close> the \<open>body\<close> has no
  identifier (neither the Tagger nor \<open>makeInteractive\<close> visits it) and keeps the marker:
  after a click on the first \<open>div\<close> and one on the second, both of which have the
  listener and an identifier, two elements carry the marker.
\<close>

theorem stray_marker_survives_clicks:
  "list_all (\<lambda>p. p \<in> set (listeners markedBodyRuntime)) [[1, 0], [1, 1]]
   \<and> list_all (identifiableAt (dom markedBodyRuntime)) [[1, 0], [1, 1]]
   \<and> querySelectorAll (hasAttribute ''data-selected'')
        (dom (run sampleBrowser [Click [1, 0], Click [1, 1]] markedBodyRuntime))
       = [[1], [1, 1]]"
  by code_simp


text \<open>
  C4, amended. After every non-empty sequence of clicks on elements that have the click
  listener and an identifier (so after a click on \<open>A\<close> and one on \<open>B\<close>, and after every
  click on the way), exactly one of the elements with an identifier carries the marker,
  the element clicked last, with the value \<open>true\<close>; it is the only element of the
  document with the marker when no element without an identifier carried the marker
  before; and the host, once it has handled the messages posted so far, stores the
  identifier of that element. A listener that was added to an element several times runs
  as often; the statement covers that.
\<close>

theorem single_active_selection:
  assumes "ps \<noteq> []"
    and "list_all (\<lambda>p. p \<in> set (listeners s)) ps"
    and "list_all (identifiableAt (dom s)) ps"
  shows "querySelectorAll identifiedMarker (dom (run B (map Click ps) s)) = [last ps]
       \<and> map_option (getAttribute ''data-selected'') (elemAt (last ps) (dom (run B (map Click ps) s)))
           = Some (Some ''true'')
       \<and> (querySelectorAll strayMarker (dom s) = [] \<longrightarrow>
            querySelectorAll (hasAttribute ''data-selected'') (dom (run B (map Click ps) s))
              = [last ps])
       \<and> Some (selectedId (fold (handler r) (posted (run B (map Click ps) s)) h))
           = map_option (getAttribute ''data-editor-id'') (elemAt (last ps) (dom s))"
proof -
  from assms(3) have v: "list_all (\<lambda>p. elemAt p (dom s) \<noteq> None) ps"
    by (auto simp: list_all_iff identifiableAt_def split: option.splits)
  note r = run_clicks [OF assms(2) v, of B]
  from listenerRuns_last [OF assms(1,2)] have ne: "listenerRuns (listeners s) ps \<noteq> []"
    and la: "last (listenerRuns (listeners s) ps) = last ps"
    and su: "set (listenerRuns (listeners s) ps) \<subseteq> set ps"
    by auto
  from su assms(3) have "list_all (identifiableAt (dom s)) (listenerRuns (listeners s) ps)"
    by (auto simp: list_all_iff)
  from handler_runs_select [OF ne this, of B] show ?thesis
    unfolding r la by (auto simp: handler_selection_last simp del: fold_append)
qed

theorem single_active_selection_witness:
  "list_all (\<lambda>p. p \<in> set (listeners sampleRuntime)) [[1, 0], [1, 1, 0]]
   \<and> list_all (identifiableAt (dom sampleRuntime)) [[1, 0], [1, 1, 0]]
   \<and> querySelectorAll strayMarker (dom sampleRuntime) = []
   \<and> querySelectorAll (hasAttribute ''data-selected'')
        (dom (run sampleBrowser (map Click [[1, 0], [1, 1, 0]]) sampleRuntime))
       = [[1, 1, 0]]
   \<and> querySelectorAll identifiedMarker
        (dom (run sampleBrowser (map Click [[1, 0], [1, 1]]) markedBodyRuntime))
       = [[1, 1]]
   \<and> selectedId (fold (handler None)
        (posted (run sampleBrowser (map Click [[1, 0], [1, 1, 0]]) sampleRuntime))
        sampleHost) = Some ''el-2''"
  using
    single_active_selection [of "[[1, 0], [1, 1, 0]]" sampleRuntime sampleBrowser None sampleHost]
    single_active_selection [of "[[1, 0], [1, 1]]" markedBodyRuntime sampleBrowser None sampleHost]
  by code_simp


section \<open>Commands\<close>

text \<open>
  C7. Handling \<open>clear-selection\<close> leaves no element of the document with the marker and
  posts nothing to the host; on the host, \<open>clearSelection\<close> empties the stored selected
  identifier and the selection info and posts the command. The host part is stated for a
  mounted frame: \<open>iframeRef.current\<close> is set for as long as the component, and with it the
  control that calls \<open>clearSelection\<close>, exists.
\<close>

theorem clear_selection_clears:
  "querySelectorAll (hasAttribute ''data-selected'') (dom (messageListener B ClearSelection s)) = []
   \<and> posted (messageListener B ClearSelection s) = posted s
   \<and> (iframeMounted h \<longrightarrow>
        selectedId (clearSelection h) = None \<and> selectionInfo (clearSelection h) = None
        \<and> sent (clearSelection h) = sent h @ [ClearSelection])"
proof -
  have "querySelectorAll (hasAttribute ''data-selected'') (dom (messageListener B ClearSelection s)) = []"
    unfolding querySelectorAll_empty by (auto simp: clear_dom)
  then show ?thesis
    by (simp add: messageListener_def clearSelection_def)
qed

theorem clear_selection_clears_witness:
  "querySelectorAll (hasAttribute ''data-selected'')
      (dom (click sampleBrowser [1, 0] sampleRuntime)) = [[1, 0]]
   \<and> querySelectorAll (hasAttribute ''data-selected'')
      (dom (messageListener sampleBrowser ClearSelection
              (click sampleBrowser [1, 0] sampleRuntime))) = []
   \<and> iframeMounted (sampleHost\<lparr>selectedId := Some ''el-1''\<rparr>)
   \<and> selectedId (clearSelection (sampleHost\<lparr>selectedId := Some ''el-1''\<rparr>)) = None
   \<and> sent (clearSelection (sampleHost\<lparr>selectedId := Some ''el-1''\<rparr>)) = [ClearSelection]"
  using clear_selection_clears [of sampleBrowser
      "click sampleBrowser [1, 0] sampleRuntime" "sampleHost\<lparr>selectedId := Some ''el-1''\<rparr>"]
  by code_simp








text \<open>
  C5, as the claim states it, fails: \<open>querySelector\<close> returns the first element in
  document order that carries the identifier. Of two paragraphs with the same identifier
  let \<open>A\<close> be the second, at path \<open>[1, 1]\<close>: a patch addressed to the identifier of \<open>A\<close>
  changes the style of the first paragraph, an element other than \<open>A\<close>, and leaves \<open>A\<close>
  as it is.
\<close>

theorem first_match_is_patched:
  "elemAt [1, 1] (dom copiedRuntime)
     = Some \<lparr>tagName = ''P'', attributes = [(''data-editor-id'', ''a'')], style = []\<rparr>
   \<and> elemAt [1, 0] (dom copiedRuntime)
     = Some \<lparr>tagName = ''P'', attributes = [(''data-editor-id'', ''a'')], style = []\<rparr>
   \<and> elemAt [1, 0]
        (dom (messageListener sampleBrowser (ApplyProps ''a'' (Some [(''background'', ''red'')]))
           copiedRuntime))
     = Some \<lparr>tagName = ''P'', attributes = [(''data-editor-id'', ''a'')],
             style = [(''background'', ''red'')]\<rparr>
   \<and> elemAt [1, 0]
        (dom (messageListener sampleBrowser (ApplyProps ''a'' (Some [(''background'', ''red'')]))
           copiedRuntime))
     \<noteq> elemAt [1, 0] (dom copiedRuntime)
   \<and> elemAt [1, 1]
        (dom (messageListener sampleBrowser (ApplyProps ''a'' (Some [(''background'', ''red'')]))
           copiedRuntime))
     = elemAt [1, 1] (dom copiedRuntime)"
  by code_simp


text \<open>
  C5, amended. An \<open>apply-props\<close> command changes the element that its lookup returns
  (for an identifier without quotation mark, backslash, NUL and line break the first
  element in document order that carries it; \<open>A\<close> itself when \<open>A\<close> alone carries its
  identifier). The listener leaves the tag, attributes and style of every element outside
  the subtree of that element as they are, and unless the patch has an \<open>innerHTML\<close> entry
  so those of every element other than the located one. The run of \<open>makeInteractive\<close>
  that the observer starts after an \<open>innerHTML\<close> entry leaves every settled element
  outside that subtree as it is as well. Nothing is posted.
\<close>

theorem apply_props_isolation:
  assumes "locate (selectorEngine B) i (dom s) = Some (Some a)"
  shows "(\<not> prefix a q \<longrightarrow>
            elemAt q (dom (messageListener B (ApplyProps i props) s)) = elemAt q (dom s))
       \<and> (\<not> replacesContent props \<and> q \<noteq> a \<longrightarrow>
            elemAt q (dom (messageListener B (ApplyProps i props) s)) = elemAt q (dom s))
       \<and> (\<not> prefix a q \<and> elemAt q (dom s) = Some e \<and> settled e \<longrightarrow>
            elemAt q (dom (step B (Message (ApplyProps i props)) s)) = Some e)
       \<and> posted (step B (Message (ApplyProps i props)) s) = posted s
       \<and> (plainId i \<longrightarrow> querySelector (idIs i) (dom s) = Some a)"
proof -
  from assms have pl: "plainId i \<longrightarrow> querySelector (idIs i) (dom s) = Some a"
    by (auto simp: locate_plain)
  have 12: "(\<not> prefix a q \<longrightarrow>
            elemAt q (dom (messageListener B (ApplyProps i props) s)) = elemAt q (dom s))
       \<and> (\<not> replacesContent props \<and> q \<noteq> a \<longrightarrow>
            elemAt q (dom (messageListener B (ApplyProps i props) s)) = elemAt q (dom s))
       \<and> posted (messageListener B (ApplyProps i props) s) = posted s"
  proof (cases props)
    case None
    with assms show ?thesis by (simp add: messageListener_def)
  next
    case (Some kvs)
    have m: "messageListener B (ApplyProps i props) s = fold (applyEntry B a) kvs s"
      unfolding Some by (rule apply_props_located [OF assms])
    show ?thesis
      unfolding m by (auto simp: entries_outside entries_other replacesContent_def Some)
  qed
  have 3: "\<not> prefix a q \<and> elemAt q (dom s) = Some e \<and> settled e \<longrightarrow>
            elemAt q (dom (step B (Message (ApplyProps i props)) s)) = Some e"
    using 12 by (auto simp: deliver_settled)
  from 12 3 pl show ?thesis by simp
qed


theorem apply_props_isolation_witness:
  "locate (selectorEngine sampleBrowser) ''el-7'' (dom sampleRuntime) = Some (Some [1, 1])
   \<and> plainId ''el-7''
   \<and> querySelector (idIs ''el-7'') (dom sampleRuntime) = Some [1, 1]
   \<and> \<not> prefix [1, 1] [1, 0 :: nat]
   \<and> elemAt [1, 0] (dom sampleRuntime)
     = Some \<lparr>tagName = ''DIV'', attributes = [(''class'', ''card''), (''data-editor-id'', ''el-1'')],
             style = []\<rparr>
   \<and> settled \<lparr>tagName = ''DIV'', attributes = [(''class'', ''card''), (''data-editor-id'', ''el-1'')],
             style = []\<rparr>
   \<and> elemAt [1, 0]
        (dom (messageListener sampleBrowser
           (ApplyProps ''el-7'' (Some [(''innerHTML'', ''<b>Bold</b>''), (''display'', ''flex'')]))
           sampleRuntime))
     = elemAt [1, 0] (dom sampleRuntime)
   \<and> elemAt [1, 0]
        (dom (step sampleBrowser
           (Message (ApplyProps ''el-7'' (Some [(''innerHTML'', ''<b>Bold</b>''), (''display'', ''flex'')])))
           sampleRuntime))
     = elemAt [1, 0] (dom sampleRuntime)
   \<and> \<not> replacesContent (Some [(''display'', ''flex'')])
   \<and> elemAt [1, 1, 0]
        (dom (messageListener sampleBrowser (ApplyProps ''el-7'' (Some [(''display'', ''flex'')]))
           sampleRuntime))
     = elemAt [1, 1, 0] (dom sampleRuntime)"
  using
    apply_props_isolation [where B = sampleBrowser and i = "''el-7''" and s = sampleRuntime
      and a = "[1, 1]" and q = "[1, 0]"
      and props = "Some [(''innerHTML'', ''<b>Bold</b>''), (''display'', ''flex'')]"
      and e = "\<lparr>tagName = ''DIV'', attributes = [(''class'', ''card''), (''data-editor-id'', ''el-1'')],
             style = []\<rparr>"]
    apply_props_isolation [where B = sampleBrowser and i = "''el-7''" and s = sampleRuntime
      and a = "[1, 1]" and q = "[1, 1, 0]"
      and props = "Some [(''display'', ''flex'')]"
      and e = "\<lparr>tagName = ''DIV'', attributes = [(''class'', ''card''), (''data-editor-id'', ''el-1'')],
             style = []\<rparr>"]
  by code_simp


section \<open>Editing stays enabled\<close>




section \<open>The bootstrapper\<close>

text \<open>
  C9, as the claim states it, fails in one point: the serialized document holds an element
  under the \<open>body\<close> that is not tagged. The script element is appended after the Tagger
  has run, so in the text that \<open>buildIframeContents\<close> returns it has no identifier (it
  gets one from \<open>makeInteractive\<close> when the script runs in the frame).
\<close>

theorem script_element_is_untagged:
  "buildIframeContents sampleParser (serializer sampleBrowser) []
     = ''<!doctype html>'' @ [CHR 0x0A] @ serializer sampleBrowser (documentElement (servedDocument sampleDocument))
   \<and> identifiers (servedDocument sampleDocument)
     = [Some ''el-1'', Some ''el-7'', Some ''el-2'', Some ''el-3'', None]
   \<and> \<not> list_all (hasAttribute ''data-editor-id'') (contentElements (servedDocument sampleDocument))"
  by code_simp


text \<open>
  C9, amended. \<open>buildIframeContents\<close> has no error result: for every input text its
  value is the doctype line followed by the serialization of the document that the parser
  made of the text, changed as follows. The \<open>html\<close>, \<open>head\<close> and \<open>body\<close> elements are
  as parsed. The children of the \<open>body\<close> are those that the Tagger returns, as many
  elements as were parsed and each with an identifier, followed by one more, the script
  element of type \<open>text/javascript\<close> without identifier, whose text is \<open>injectedScript\<close>.
  The children of the \<open>head\<close> are the parsed ones followed by the style element whose
  text is \<open>helperStyles\<close>. That text has the rule that outlines an identified element
  whose marker is \<open>true\<close> and the rule that gives identified elements the pointer cursor;
  the script text has the lines that attach the click listener, the \<open>input\<close> and the
  \<open>message\<close> listener, run \<open>makeInteractive\<close>, start the observer and post
  \<open>iframe-ready\<close>.
\<close>

theorem buildIframeContents_output:
  \<open>buildIframeContents parseFromString oh h
     = ''<!doctype html>'' @ [CHR 0x0A] @ oh (documentElement (servedDocument (parseFromString h)))
   \<and> html (servedDocument (parseFromString h)) = html (parseFromString h)
   \<and> head (servedDocument (parseFromString h)) = head (parseFromString h)
   \<and> body (servedDocument (parseFromString h)) = body (parseFromString h)
   \<and> headChildren (servedDocument (parseFromString h))
       = headChildren (parseFromString h)
         @ [Element \<lparr>tagName = ''STYLE'', attributes = [], style = []\<rparr> [Text helperStyles]]
   \<and> bodyChildren (servedDocument (parseFromString h))
       = bodyChildren (attachEditorIds (parseFromString h))
         @ [Element \<lparr>tagName = ''SCRIPT'', attributes = [(''type'', ''text/javascript'')], style = []\<rparr>
              [Text injectedScript]]
   \<and> length (contentElements (attachEditorIds (parseFromString h)))
       = length (contentElements (parseFromString h))
   \<and> list_all (hasAttribute ''data-editor-id'') (contentElements (attachEditorIds (parseFromString h)))
   \<and> identifiers (servedDocument (parseFromString h))
       = identifiers (attachEditorIds (parseFromString h)) @ [None]
   \<and> sublist ''    [data-editor-id][data-selected="true"]{outline:3px solid #2563eb66; box-shadow:0 2px 8px rgba(37,99,235,0.12);} '' helperStyles
   \<and> sublist ''    [data-editor-id]{cursor: pointer;}'' helperStyles
   \<and> sublist ''          el.addEventListener('click', function(ev){'' injectedScript
   \<and> sublist ''      document.addEventListener('input', function(ev){'' injectedScript
   \<and> sublist ''      window.addEventListener('message', function(e){'' injectedScript
   \<and> sublist ''      makeInteractive();'' injectedScript
   \<and> sublist ''      obs.observe(document.body, {childList:true, subtree:true});'' injectedScript
   \<and> sublist ''      post({type:'iframe-ready', html: document.documentElement.outerHTML});'' injectedScript\<close>
proof -
  have t: "list_all (hasAttribute ''data-editor-id'') (contentElements (attachEditorIds (parseFromString h)))"
    using walk_tagged(2) [of "bodyChildren (parseFromString h)" 1]
    by (simp add: attachEditorIds_def contentElements_def)
  have l: "length (contentElements (attachEditorIds (parseFromString h)))
       = length (contentElements (parseFromString h))"
    using walk_keeps(2) [of "bodyChildren (parseFromString h)" 1]
    by (simp add: attachEditorIds_def contentElements_def list_all2_lengthD)
  have e: "elementsOf (ns @ ms) = elementsOf ns @ elementsOf ms" for ns ms
    by (induction ns) simp_all
  have i: "identifiers (servedDocument (parseFromString h))
       = identifiers (attachEditorIds (parseFromString h)) @ [None]"
    by (simp add: identifiers_def contentElements_def servedDocument_def Let_def e
        scriptElement_def getAttribute_def)
  have f: "html (attachEditorIds d) = html d" "head (attachEditorIds d) = head d"
    "body (attachEditorIds d) = body d" "headChildren (attachEditorIds d) = headChildren d" for d
    by (simp_all add: attachEditorIds_def)
  have b: "buildIframeContents parseFromString oh h
     = ''<!doctype html>'' @ [CHR 0x0A] @ oh (documentElement (servedDocument (parseFromString h)))"
    by (simp add: buildIframeContents_def servedDocument_def Let_def)
  have s: "html (servedDocument d) = html (attachEditorIds d)"
    "head (servedDocument d) = head (attachEditorIds d)"
    "body (servedDocument d) = body (attachEditorIds d)"
    "headChildren (servedDocument d) = headChildren (attachEditorIds d) @ [styleElement]"
    "bodyChildren (servedDocument d) = bodyChildren (attachEditorIds d) @ [scriptElement]" for d
    by (simp_all add: servedDocument_def Let_def)
  show ?thesis
    using t l i b style_rules script_parts
    by (simp add: s f styleElement_def scriptElement_def)
qed


end
